(* ===== verification/Prelude.thy ===== *)
theory Prelude
  imports Complex_Main
begin

text \<open>
  Shared vocabulary of the development: the row type of the table adapters,
  Go's int64 arithmetic (range, two's-complement wrap-around, truncating
  division and remainder), generic facts on runs of deterministic step relations,
  and the lemma collections the component theories
  feed and use.
\<close>

named_theorems go_int_simps "facts on the model of Go's int64 arithmetic"
named_theorems row_simps "facts on rows built by the table adapters"

text \<open>A row is Go's \<open>map[string]string\<close>; a missing key is \<open>None\<close>.\<close>

type_synonym row = "string \<rightharpoonup> string"

subsection \<open>Go's int64\<close>

definition int64_min :: int where
  "int64_min = - (2 ^ 63)"

definition int64_max :: int where
  "int64_max = 2 ^ 63 - 1"

definition in_int64 :: "int \<Rightarrow> bool" where
  "in_int64 x \<longleftrightarrow> int64_min \<le> x \<and> x \<le> int64_max"

text \<open>Two's-complement wrap-around of a Go int64 product or negation.\<close>

definition wrap64 :: "int \<Rightarrow> int" where
  "wrap64 x = (x + 2 ^ 63) mod 2 ^ 64 - 2 ^ 63"

text \<open>Go's \<open>/\<close> and \<open>%\<close> on integers truncate towards zero.\<close>

definition go_quot :: "int \<Rightarrow> int \<Rightarrow> int" where
  "go_quot a b = sgn a * sgn b * (\<bar>a\<bar> div \<bar>b\<bar>)"

definition go_rem :: "int \<Rightarrow> int \<Rightarrow> int" where
  "go_rem a b = a - b * go_quot a b"

lemma in_int64_wrap64 [go_int_simps]: "in_int64 (wrap64 x)"
  by (simp add: in_int64_def wrap64_def int64_min_def int64_max_def)

lemma wrap64_id [go_int_simps]: "in_int64 x \<Longrightarrow> wrap64 x = x"
  by (simp add: in_int64_def wrap64_def int64_min_def int64_max_def)

lemma wrap64_shift: "\<exists>k. wrap64 x = x + k * 2 ^ 64"
proof -
  have "(x + 2 ^ 63) mod 2 ^ 64 = (x + 2 ^ 63) - ((x + 2 ^ 63) div 2 ^ 64) * 2 ^ 64"
    by (simp add: minus_div_mult_eq_mod)
  then show ?thesis
    by (intro exI [of _ "- ((x + 2 ^ 63) div 2 ^ 64)"]) (simp add: wrap64_def)
qed

lemma go_quot_nonneg [go_int_simps]: "0 \<le> a \<Longrightarrow> 0 < b \<Longrightarrow> go_quot a b = a div b"
  by (cases "a = 0") (simp_all add: go_quot_def)

lemma go_rem_nonneg [go_int_simps]: "0 \<le> a \<Longrightarrow> 0 < b \<Longrightarrow> go_rem a b = a mod b"
  by (simp add: go_rem_def go_quot_nonneg minus_div_mult_eq_mod [symmetric] mult.commute)

lemma go_quot_neg: "a < 0 \<Longrightarrow> 0 < b \<Longrightarrow> go_quot a b = - ((- a) div b)"
  by (simp add: go_quot_def)

lemma go_rem_neg: "a < 0 \<Longrightarrow> 0 < b \<Longrightarrow> go_rem a b = - ((- a) mod b)"
  by (simp add: go_rem_def go_quot_neg minus_div_mult_eq_mod [symmetric] algebra_simps)

lemma go_rem_abs_less: "0 < b \<Longrightarrow> \<bar>go_rem a b\<bar> < b"
proof (cases "0 \<le> a")
  case True
  moreover assume "0 < b"
  ultimately show ?thesis by (simp add: go_rem_nonneg)
next
  case False
  moreover assume b: "0 < b"
  ultimately have "go_rem a b = - ((- a) mod b)"
    by (simp add: go_rem_def go_quot_neg minus_div_mult_eq_mod [symmetric] algebra_simps)
  with b show ?thesis by simp
qed

lemma go_rem_eq_0_iff [go_int_simps]: "0 < b \<Longrightarrow> go_rem a b = 0 \<longleftrightarrow> b dvd a"
proof (cases "0 \<le> a")
  case True
  moreover assume "0 < b"
  ultimately show ?thesis by (simp add: go_rem_nonneg dvd_eq_mod_eq_0)
next
  case False
  moreover assume b: "0 < b"
  ultimately have "go_rem a b = - ((- a) mod b)"
    by (simp add: go_rem_def go_quot_neg minus_div_mult_eq_mod [symmetric] algebra_simps)
  then show ?thesis by (simp add: dvd_eq_mod_eq_0 [symmetric])
qed

subsection \<open>Runs of step relations\<close>

text \<open>A deterministic step relation has at most one final state per start, and every
  state on the way still reaches it; the loop and the calls of \<open>Generate\<close> both use
  this.\<close>

lemma star_from_final: "r\<^sup>*\<^sup>* s t \<Longrightarrow> (\<And>t'. \<not> r s t') \<Longrightarrow> t = s"
  by (induction rule: converse_rtranclp_induct) auto

lemma deterministic_star_final:
  assumes det: "\<And>x y z. r x y \<Longrightarrow> r x z \<Longrightarrow> z = y"
    and "r\<^sup>*\<^sup>* s u" "r\<^sup>*\<^sup>* s t" "\<And>t'. \<not> r t t'"
  shows "r\<^sup>*\<^sup>* u t"
  using assms(2-)
proof (induction arbitrary: t rule: converse_rtranclp_induct)
  case base
  then show ?case by simp
next
  case (step s s1)
  from step.prems obtain s2 where "r s s2" "r\<^sup>*\<^sup>* s2 t"
    using step.hyps(1) by (metis converse_rtranclpE)
  with step det show ?case by metis
qed

end
