(* ===== verification/Strconv.thy ===== *)
theory Strconv
  imports Prelude
begin

text \<open>
  Go's \<open>strconv.AppendInt(out, i, 10)\<close> (and \<open>big.Int.String\<close>, which prints the
  same way): the base-10 rendering of an integer, a minus sign for negative values
  and no leading zeros.  Quantity rendering appends it before the unit suffix.
  \<open>parse_int\<close> is the reference reader used to state the round trip; it is not
  code of the program.
\<close>

definition digit_char :: "nat \<Rightarrow> char" where
  "digit_char d = ''0123456789'' ! d"

fun digits10 :: "nat \<Rightarrow> string" where
  "digits10 n = (if n < 10 then [digit_char n] else digits10 (n div 10) @ [digit_char (n mod 10)])"

declare digits10.simps [simp del]

definition format_int :: "int \<Rightarrow> string" where
  "format_int i = (if i < 0 then CHR ''-'' # digits10 (nat (- i)) else digits10 (nat i))"

subsection \<open>Reading decimal numbers back\<close>

definition digit_val :: "char \<Rightarrow> nat option" where
  "digit_val c = (let n = (of_char c :: nat) in if 48 \<le> n \<and> n \<le> 57 then Some (n - 48) else None)"

definition is_digit :: "char \<Rightarrow> bool" where
  "is_digit c \<longleftrightarrow> digit_val c \<noteq> None"

fun read_digits :: "nat \<Rightarrow> string \<Rightarrow> nat \<times> string" where
  "read_digits acc [] = (acc, [])"
| "read_digits acc (c # cs) =
     (case digit_val c of None \<Rightarrow> (acc, c # cs) | Some d \<Rightarrow> read_digits (10 * acc + d) cs)"

definition parse_nat :: "string \<Rightarrow> (nat \<times> string) option" where
  "parse_nat s = (case s of [] \<Rightarrow> None
     | c # cs \<Rightarrow> (case digit_val c of None \<Rightarrow> None | Some d \<Rightarrow> Some (read_digits d cs)))"

definition parse_int :: "string \<Rightarrow> (int \<times> string) option" where
  "parse_int s = (case s of [] \<Rightarrow> None
     | c # cs \<Rightarrow> if c = CHR ''-'' then map_option (\<lambda>(n, r). (- int n, r)) (parse_nat cs)
                 else map_option (\<lambda>(n, r). (int n, r)) (parse_nat s))"

text \<open>The rest of the input does not continue the number.\<close>

definition no_digit_start :: "string \<Rightarrow> bool" where
  "no_digit_start s \<longleftrightarrow> (case s of [] \<Rightarrow> True | c # _ \<Rightarrow> \<not> is_digit c)"

subsection \<open>Properties of the rendering\<close>

lemma digit_val_digit_char [simp]: "d < 10 \<Longrightarrow> digit_val (digit_char d) = Some d"
proof -
  assume "d < 10"
  then have "d \<in> {0, 1, 2, 3, 4, 5, 6, 7, 8, 9}" by auto
  then show ?thesis by (auto simp: digit_val_def digit_char_def)
qed

lemma digits10_nonempty [simp]: "digits10 n \<noteq> []"
  by (subst digits10.simps) simp

lemma digits10_all_digits: "c \<in> set (digits10 n) \<Longrightarrow> is_digit c"
proof (induction n rule: digits10.induct)
  case (1 n)
  then show ?case
    by (subst (asm) digits10.simps) (auto simp: is_digit_def split: if_splits)
qed

lemma read_digits_digits10:
  "read_digits acc (digits10 n @ rest) = read_digits (acc * 10 ^ length (digits10 n) + n) rest"
proof (induction n arbitrary: acc rest rule: digits10.induct)
  case (1 n)
  show ?case
  proof (cases "n < 10")
    case True
    then have "digits10 n = [digit_char n]" by (subst digits10.simps) simp
    with True show ?thesis by (simp add: mult.commute)
  next
    case False
    then have ds: "digits10 n = digits10 (n div 10) @ [digit_char (n mod 10)]"
      by (subst digits10.simps) simp
    have "read_digits acc (digits10 n @ rest)
        = read_digits (acc * 10 ^ length (digits10 (n div 10)) + n div 10) (digit_char (n mod 10) # rest)"
      using "1.IH" [OF False] by (simp add: ds)
    also have "\<dots> = read_digits (10 * (acc * 10 ^ length (digits10 (n div 10)) + n div 10) + n mod 10) rest"
      by simp
    also have "10 * (acc * 10 ^ length (digits10 (n div 10)) + n div 10) + n mod 10
        = acc * 10 ^ length (digits10 n) + n"
      by (simp add: ds)
    finally show ?thesis .
  qed
qed

lemma read_digits_stop: "no_digit_start rest \<Longrightarrow> read_digits acc rest = (acc, rest)"
  by (cases rest) (auto simp: no_digit_start_def is_digit_def)

lemma parse_nat_digits10:
  "no_digit_start rest \<Longrightarrow> parse_nat (digits10 n @ rest) = Some (n, rest)"
proof -
  assume rest: "no_digit_start rest"
  obtain c cs where cs: "digits10 n = c # cs"
    using digits10_nonempty by (cases "digits10 n") auto
  then obtain d where d: "digit_val c = Some d"
    using digits10_all_digits [of c n] by (auto simp: is_digit_def)
  have "read_digits 0 (digits10 n @ rest) = (n, rest)"
    by (simp add: read_digits_digits10 read_digits_stop [OF rest])
  with cs d show ?thesis
    by (simp add: parse_nat_def)
qed

lemma digits10_head_not_minus: "hd (digits10 n) \<noteq> CHR ''-''"
  using digits10_all_digits [of "hd (digits10 n)" n] digits10_nonempty [of n]
  by (auto simp: is_digit_def digit_val_def)

lemma parse_int_format_int:
  "no_digit_start rest \<Longrightarrow> parse_int (format_int i @ rest) = Some (i, rest)"
proof (cases "i < 0")
  case True
  assume "no_digit_start rest"
  with True show ?thesis
    by (simp add: format_int_def parse_int_def parse_nat_digits10)
next
  case False
  assume rest: "no_digit_start rest"
  obtain c cs where cs: "digits10 (nat i) = c # cs"
    using digits10_nonempty by (cases "digits10 (nat i)") auto
  with digits10_head_not_minus [of "nat i"] have "c \<noteq> CHR ''-''" by simp
  then have "parse_int (digits10 (nat i) @ rest)
      = map_option (\<lambda>(n, r). (int n, r)) (parse_nat (digits10 (nat i) @ rest))"
    using cs by (simp add: parse_int_def)
  with False rest show ?thesis
    by (simp add: format_int_def parse_nat_digits10)
qed

end
