(* ===== verification/Quantity.thy ===== *)
theory Quantity
  imports Strconv
begin

text \<open>
  The canonical rendering of a Kubernetes resource quantity, which the adapters
  call as \<open>(&quantity).String()\<close> for the \<open>capacity\<close> and \<open>requested\<close>
  columns.  The code is Kubernetes' \<open>resource.Quantity\<close>
  (\<open>Quantity.String\<close>, \<open>CanonicalizeBytes\<close>, \<open>int64Amount.AsCanonicalBytes\<close>,
  \<open>AsCanonicalBase1024Bytes\<close>, \<open>removeInt64Factors\<close>,
  \<open>int64MultiplyScale10/100\<close>, the suffixer), modelled for quantities held in the
  int64 fast representation \<open>value * 10 ^ scale\<close>.  Where the int64 arithmetic
  would overflow, the library falls back to its arbitrary-precision path
  (\<open>infDecAmount\<close>), modelled here with unbounded integers.  The lemmas show
  that both paths keep the value and agree, and that for quantities in range
  without cached text the rendered text reads back to the value.  \<open>String\<close>
  returns the cached text \<open>q.s\<close> verbatim when it is set (\<open>ParseQuantity\<close>
  keeps its input there when the input looks canonical), and only otherwise
  renders the canonical form.
\<close>

datatype Format = DecimalExponent | BinarySI | DecimalSI | OtherFormat string

text \<open>\<open>resource.Quantity\<close> in its int64 form (\<open>i int64Amount\<close>: value and scale),
  its \<open>Format\<close>, and the cached text \<open>s\<close>, empty when nothing is cached.\<close>

record Quantity =
  amount_value :: int
  amount_scale :: int
  qformat :: Format
  cached_text :: string

subsection \<open>int64 helpers of the fast path\<close>

text \<open>\<open>int64MultiplyScale10\<close> and \<open>int64MultiplyScale100\<close>: multiply, and detect
  overflow by dividing the wrapped product back.\<close>

definition int64_multiply_scale :: "int \<Rightarrow> int \<Rightarrow> int \<times> bool" where
  "int64_multiply_scale a b =
     (if a = 0 \<or> a = 1 then (a * b, True)
      else if a = -1 then (- b, True)
      else let c = wrap64 (a * b) in (c, go_quot c b = a))"

text \<open>The loop of \<open>removeInt64Factors\<close>: \<open>for result >= base && result%base == 0\<close>.
  The library calls it with the bases 10 and 1024 only; the guard \<open>2 \<le> base\<close>
  records that.\<close>

function strip_int64_factors :: "int \<Rightarrow> int \<Rightarrow> nat \<Rightarrow> int \<times> nat" where
  "strip_int64_factors base r cnt =
     (if 2 \<le> base \<and> base \<le> r \<and> go_rem r base = 0
      then strip_int64_factors base (go_quot r base) (Suc cnt) else (r, cnt))"
  by pat_completeness auto
termination
proof (relation "measure (\<lambda>(base, r, cnt). nat r)")
  fix base r :: int and cnt :: nat
  assume g: "2 \<le> base \<and> base \<le> r \<and> go_rem r base = 0"
  then have "go_quot r base = r div base" by (simp add: go_quot_nonneg)
  moreover from g have "r div base < r" by (simp add: int_div_less_self)
  moreover from g have "0 \<le> r div base" by (simp add: pos_imp_zdiv_nonneg_iff)
  ultimately show "((base, go_quot r base, Suc cnt), base, r, cnt)
      \<in> measure (\<lambda>(base, r, cnt). nat r)" by simp
qed simp

declare strip_int64_factors.simps [simp del]

definition remove_int64_factors :: "int \<Rightarrow> int \<Rightarrow> int \<times> nat" where
  "remove_int64_factors value base =
     (let negative = value < 0;
          result = (if negative then wrap64 (- value) else value);
          (result', cnt) = strip_int64_factors base result 0
      in (if negative then wrap64 (- result') else result', cnt))"

subsection \<open>The arbitrary-precision path\<close>

text \<open>\<open>removeBigIntFactors\<close>: divide while the remainder is zero.\<close>

function remove_big_factors :: "int \<Rightarrow> int \<Rightarrow> nat \<Rightarrow> int \<times> nat" where
  "remove_big_factors d factor cnt =
     (if d \<noteq> 0 \<and> 2 \<le> factor \<and> d mod factor = 0
      then remove_big_factors (d div factor) factor (Suc cnt) else (d, cnt))"
  by pat_completeness auto
termination
proof (relation "measure (\<lambda>(d, factor, cnt). nat \<bar>d\<bar>)")
  fix d factor :: int and cnt :: nat
  assume g: "d \<noteq> 0 \<and> 2 \<le> factor \<and> d mod factor = 0"
  then obtain k where k: "d = factor * k" by (auto simp: dvd_eq_mod_eq_0 [symmetric])
  with g have "k \<noteq> 0" by auto
  with g k have "\<bar>k\<bar> < \<bar>d\<bar>" by (simp add: abs_mult)
  with g k show "((d div factor, factor, Suc cnt), d, factor, cnt)
      \<in> measure (\<lambda>(d, factor, cnt). nat \<bar>d\<bar>)" by simp
qed simp

declare remove_big_factors.simps [simp del]

text \<open>\<open>for exponent%3 != 0 { amount.Mul(amount, bigTen); exponent-- }\<close>\<close>

function align_exponent3 :: "int \<Rightarrow> int \<Rightarrow> int \<times> int" where
  "align_exponent3 amount exponent =
     (if go_rem exponent 3 \<noteq> 0 then align_exponent3 (amount * 10) (exponent - 1)
      else (amount, exponent))"
  by pat_completeness auto
termination
proof (relation "measure (\<lambda>(amount, exponent). nat (exponent mod 3))")
  fix amount exponent :: int
  assume "go_rem exponent 3 \<noteq> 0"
  then have "exponent mod 3 \<noteq> 0" by (simp add: go_rem_eq_0_iff dvd_eq_mod_eq_0)
  then have "(exponent - 1) mod 3 < exponent mod 3" by presburger
  then show "((amount * 10, exponent - 1), amount, exponent)
      \<in> measure (\<lambda>(amount, exponent). nat (exponent mod 3))" by simp
qed simp

declare align_exponent3.simps [simp del]

text \<open>\<open>infDecAmount.AsCanonicalBytes\<close> of \<open>int64Amount.AsDec()\<close>.\<close>

definition big_canonical_bytes :: "int \<Rightarrow> int \<Rightarrow> string \<times> int" where
  "big_canonical_bytes mantissa scale =
     (case remove_big_factors mantissa 10 0 of (amount, cnt) \<Rightarrow>
        (case align_exponent3 amount (scale + int cnt) of (amount', exponent) \<Rightarrow>
           (format_int amount', exponent)))"

subsection \<open>Canonical number and exponent\<close>

text \<open>\<open>int64Amount.AsCanonicalBytes\<close>: strip the factors of ten into the exponent,
  then lower the exponent to a multiple of three (Go's \<open>%\<close> truncates, hence the
  negative remainders), falling back to the arbitrary-precision path on overflow.\<close>

definition as_canonical_bytes :: "int \<Rightarrow> int \<Rightarrow> string \<times> int" where
  "as_canonical_bytes mantissa scale =
     (case remove_int64_factors mantissa 10 of (amount, cnt) \<Rightarrow>
        let exponent = scale + int cnt in
        if go_rem exponent 3 = 1 \<or> go_rem exponent 3 = -2 then
          (case int64_multiply_scale amount 10 of (amount', ok) \<Rightarrow>
             if ok then (format_int amount', exponent - 1) else big_canonical_bytes mantissa scale)
        else if go_rem exponent 3 = 2 \<or> go_rem exponent 3 = -1 then
          (case int64_multiply_scale amount 100 of (amount', ok) \<Rightarrow>
             if ok then (format_int amount', exponent - 2) else big_canonical_bytes mantissa scale)
        else (format_int amount, exponent))"

text \<open>\<open>AsCanonicalBase1024Bytes\<close> of the amount rounded to scale 0 (its scale is
  never negative here): \<open>AsScaledInt64(0)\<close>, which fails exactly when the integer
  value leaves int64, then \<open>removeInt64Factors(value, 1024)\<close>; on failure the
  arbitrary-precision path.\<close>

definition as_canonical_base1024_bytes :: "int \<Rightarrow> int \<Rightarrow> string \<times> nat" where
  "as_canonical_base1024_bytes mantissa scale =
     (let value = mantissa * 10 ^ nat scale in
      if in_int64 value
      then (case remove_int64_factors value 1024 of (amount, e) \<Rightarrow> (format_int amount, e))
      else (case remove_big_factors value 1024 0 of (amount, e) \<Rightarrow> (format_int amount, e)))"

subsection \<open>Suffixes\<close>

text \<open>The suffixer's tables, keyed by (base, exponent).  The empty suffix for
  \<open>2^0\<close> sits in the decimal table, as in the library.\<close>

definition dec_suffixes :: "((int \<times> int) \<times> string) list" where
  "dec_suffixes =
     [((2, 0), []), ((10, -9), ''n''), ((10, -6), ''u''), ((10, -3), ''m''), ((10, 0), []),
      ((10, 3), ''k''), ((10, 6), ''M''), ((10, 9), ''G''), ((10, 12), ''T''),
      ((10, 15), ''P''), ((10, 18), ''E'')]"

definition bin_suffixes :: "((int \<times> int) \<times> string) list" where
  "bin_suffixes =
     [((2, 10), ''Ki''), ((2, 20), ''Mi''), ((2, 30), ''Gi''), ((2, 40), ''Ti''),
      ((2, 50), ''Pi''), ((2, 60), ''Ei'')]"

definition construct_suffix :: "int \<Rightarrow> int \<Rightarrow> Format \<Rightarrow> string option" where
  "construct_suffix base exponent fmt =
     (case fmt of
        DecimalSI \<Rightarrow> map_of dec_suffixes (base, exponent)
      | BinarySI \<Rightarrow> map_of bin_suffixes (base, exponent)
      | DecimalExponent \<Rightarrow>
          (if base \<noteq> 10 then None
           else if exponent = 0 then Some []
           else Some (CHR ''e'' # format_int exponent))
      | OtherFormat _ \<Rightarrow> None)"

subsection \<open>String\<close>

text \<open>
  \<open>CanonicalizeBytes\<close>, number and suffix appended: zero is \<open>"0"\<close>; an unknown
  format renders as \<open>DecimalExponent\<close>; a \<open>BinarySI\<close> quantity strictly between
  -1024 and 1024, or one that is not an integer (\<open>AsScale(0)\<close> inexact), renders
  as \<open>DecimalSI\<close>.  A suffix the tables do not have is dropped
  (\<open>suffix, _ := ...\<close>).
\<close>

definition canonical_string :: "Quantity \<Rightarrow> string" where
  "canonical_string q =
     (let v = amount_value q; s = amount_scale q in
      if v = 0 then ''0''
      else
        let fmt = (case qformat q of OtherFormat _ \<Rightarrow> DecimalExponent | f \<Rightarrow> f);
            small = (if 0 \<le> s then \<bar>v * 10 ^ nat s\<bar> < 1024 else \<bar>v\<bar> < 1024 * 10 ^ nat (- s));
            exact = (0 \<le> s \<or> 10 ^ nat (- s) dvd v);
            fmt' = (if fmt = BinarySI \<and> (small \<or> \<not> exact) then DecimalSI else fmt)
        in if fmt' = BinarySI then
             (let (rv, rs) = (if 0 \<le> s then (v, s) else (v div 10 ^ nat (- s), 0));
                  (number, exponent) = as_canonical_base1024_bytes rv rs
              in number @ (case construct_suffix 2 (int exponent * 10) fmt' of None \<Rightarrow> [] | Some suf \<Rightarrow> suf))
           else
             (let (number, exponent) = as_canonical_bytes v s
              in number @ (case construct_suffix 10 exponent fmt' of None \<Rightarrow> [] | Some suf \<Rightarrow> suf)))"

text \<open>\<open>Quantity.String\<close>: \<open>if len(q.s) == 0 { ...; q.s = string(number) }; return
  q.s\<close>.  The write to \<open>q.s\<close> caches the text in the receiver, which the
  adapters discard (they call it on a local copy).\<close>

definition quantity_String :: "Quantity \<Rightarrow> string" where
  "quantity_String q = (if cached_text q = [] then canonical_string q else cached_text q)"

subsection \<open>The value a quantity denotes\<close>

definition scaled_value :: "int \<Rightarrow> int \<Rightarrow> rat" where
  "scaled_value v s = (if 0 \<le> s then of_int (v * 10 ^ nat s) else of_int v / of_int (10 ^ nat (- s)))"

definition quantity_value :: "Quantity \<Rightarrow> rat" where
  "quantity_value q = scaled_value (amount_value q) (amount_scale q)"

text \<open>A reference reader of rendered quantities (not code of the program): a
  decimal integer followed by a suffix of the tables or an \<open>e\<close> exponent.\<close>

definition suffix_value :: "string \<Rightarrow> rat option" where
  "suffix_value sfx =
     (case map_of (map (\<lambda>((b, e), s). (s, (b, e))) (bin_suffixes @ tl dec_suffixes)) sfx of
        Some (b, e) \<Rightarrow> Some (if b = 2 then (2::rat) powi e else 10 powi e)
      | None \<Rightarrow>
          (case sfx of
             c # r \<Rightarrow>
               if c = CHR ''e'' then
                 (case parse_int r of Some (e, rest) \<Rightarrow> if rest = [] then Some (10 powi e) else None
                  | None \<Rightarrow> None)
               else None
           | [] \<Rightarrow> None))"

definition read_quantity :: "string \<Rightarrow> rat option" where
  "read_quantity s =
     (case parse_int s of
        None \<Rightarrow> None
      | Some (n, rest) \<Rightarrow> map_option (\<lambda>m. of_int n * m) (suffix_value rest))"

text \<open>The quantities whose rendering is proved exact: an int64 amount, no finer
  than nano, and of magnitude below \<open>10^21\<close>, where the suffix tables end (\<open>E\<close> is
  \<open>10^18\<close>, \<open>Ei\<close> is \<open>2^60\<close>).\<close>

definition quantity_in_range :: "Quantity \<Rightarrow> bool" where
  "quantity_in_range q \<longleftrightarrow>
     in_int64 (amount_value q) \<and> -9 \<le> amount_scale q \<and> \<bar>quantity_value q\<bar> < 10 ^ 21"

subsection \<open>The int64 helpers\<close>

lemma wrap64_eq_self_iff: "wrap64 x = x \<longleftrightarrow> in_int64 x"
  by (metis in_int64_wrap64 wrap64_id)

text \<open>\<open>int64MultiplyScale\<close> reports success exactly when the product fits in
  int64, and then returns the product.\<close>

lemma int64_multiply_scale_ok:
  assumes a: "in_int64 a" and b: "0 < b" "b < 2 ^ 62"
  shows "snd (int64_multiply_scale a b) \<longleftrightarrow> in_int64 (a * b)"
    and "snd (int64_multiply_scale a b) \<Longrightarrow> fst (int64_multiply_scale a b) = a * b"
proof -
  have small: "a = 0 \<or> a = 1 \<or> a = -1 \<Longrightarrow> in_int64 (a * b)"
    using b by (auto simp: in_int64_def int64_min_def int64_max_def)
  have main: "go_quot (wrap64 (a * b)) b = a \<longleftrightarrow> in_int64 (a * b)"
  proof
    assume "in_int64 (a * b)"
    with b show "go_quot (wrap64 (a * b)) b = a"
      by (simp add: wrap64_id go_quot_def sgn_mult abs_mult)
         (simp add: sgn_if)
  next
    assume q: "go_quot (wrap64 (a * b)) b = a"
    obtain k where k: "wrap64 (a * b) = a * b + k * 2 ^ 64"
      using wrap64_shift by blast
    have "\<bar>go_rem (wrap64 (a * b)) b\<bar> < b" using b by (simp add: go_rem_abs_less)
    then have "\<bar>k * 2 ^ 64\<bar> < b" using q k by (simp add: go_rem_def algebra_simps)
    with b have "k = 0" by (cases "k = 0") (auto simp: abs_mult)
    with k show "in_int64 (a * b)" by (metis add_0_right in_int64_wrap64 mult_zero_left)
  qed
  show "snd (int64_multiply_scale a b) \<longleftrightarrow> in_int64 (a * b)"
    using small main by (auto simp: int64_multiply_scale_def Let_def)
  show "snd (int64_multiply_scale a b) \<Longrightarrow> fst (int64_multiply_scale a b) = a * b"
    using main by (auto simp: int64_multiply_scale_def Let_def wrap64_id)
qed

subsection \<open>Values\<close>

lemma powi_10_nonneg: "0 \<le> s \<Longrightarrow> (10::rat) powi s = 10 ^ nat s"
  by (simp add: power_int_def)

lemma powi_10_neg: "\<not> 0 \<le> s \<Longrightarrow> (10::rat) powi s = inverse (10 ^ nat (- s))"
  by (simp add: power_int_def power_one_over inverse_eq_divide)

lemma scaled_value_powi: "scaled_value v s = of_int v * (10::rat) powi s"
proof (cases "0 \<le> s")
  case True
  then show ?thesis unfolding scaled_value_def powi_10_nonneg [OF True] by simp
next
  case False
  then show ?thesis unfolding scaled_value_def powi_10_neg [OF False] by (simp add: divide_inverse)
qed

lemma scaled_value_shift: "scaled_value (v * 10 ^ k) (s - int k) = scaled_value v s"
  by (simp add: scaled_value_powi power_int_diff mult.assoc)

subsection \<open>Factor stripping\<close>

lemma strip_int64_factors_value:
  "strip_int64_factors base r c = (r', c') \<Longrightarrow> 0 \<le> r \<Longrightarrow>
     r' * base ^ (c' - c) = r \<and> c \<le> c' \<and> 0 \<le> r' \<and> r' \<le> r
     \<and> \<not> (2 \<le> base \<and> base \<le> r' \<and> go_rem r' base = 0)"
proof (induction base r c arbitrary: r' c' rule: strip_int64_factors.induct)
  case (1 base r c)
  show ?case
  proof (cases "2 \<le> base \<and> base \<le> r \<and> go_rem r base = 0")
    case True
    then have b0: "0 < base" by simp
    with True have q: "go_quot r base = r div base" and dvd: "base dvd r"
      by (simp_all add: go_quot_nonneg go_rem_eq_0_iff)
    from True have r0: "0 \<le> r div base" by (simp add: pos_imp_zdiv_nonneg_iff)
    from True "1.prems"(1) have rec: "strip_int64_factors base (r div base) (Suc c) = (r', c')"
      by (simp add: strip_int64_factors.simps [of base r c] q)
    from "1.IH" [OF True, unfolded q, OF rec r0]
    have ih: "r' * base ^ (c' - Suc c) = r div base" "Suc c \<le> c'" "0 \<le> r'" "r' \<le> r div base"
      and stop: "\<not> (2 \<le> base \<and> base \<le> r' \<and> go_rem r' base = 0)" by auto
    from ih(2) have "c' - c = Suc (c' - Suc c)" by simp
    then have "r' * base ^ (c' - c) = (r' * base ^ (c' - Suc c)) * base" by (simp add: ac_simps)
    also have "\<dots> = r" using ih(1) dvd by simp
    finally show ?thesis
      using ih True stop int_div_le_self [of r base] by auto
  next
    case False
    with "1.prems" show ?thesis by (simp add: strip_int64_factors.simps [of base r c])
  qed
qed

lemma remove_int64_factors_value:
  assumes "in_int64 v" "2 \<le> base" "remove_int64_factors v base = (a, k)"
  shows "a * base ^ k = v"
proof (cases "v < 0")
  case True
  show ?thesis
  proof (cases "v = int64_min")
    case True
    then have "wrap64 (- v) = v" by (simp add: wrap64_def int64_min_def)
    moreover have "strip_int64_factors base v 0 = (v, 0)"
      using \<open>v < 0\<close> assms(2) by (simp add: strip_int64_factors.simps [of base v 0])
    ultimately show ?thesis using assms(3) \<open>v < 0\<close> by (simp add: remove_int64_factors_def)
  next
    case False
    with assms(1) True have nv: "in_int64 (- v)" by (simp add: in_int64_def int64_min_def int64_max_def)
    obtain r c where s: "strip_int64_factors base (- v) 0 = (r, c)" by fastforce
    from strip_int64_factors_value [OF s] True
    have r: "r * base ^ c = - v" "0 \<le> r" "r \<le> - v" by auto
    then have "in_int64 (- r)" using nv by (simp add: in_int64_def int64_min_def int64_max_def)
    with assms(3) True nv s r(1) show ?thesis
      by (auto simp: remove_int64_factors_def wrap64_id)
  qed
next
  case False
  obtain r c where s: "strip_int64_factors base v 0 = (r, c)" by fastforce
  from strip_int64_factors_value [OF s] False have "r * base ^ c = v" by auto
  with assms(3) False s show ?thesis by (simp add: remove_int64_factors_def)
qed

lemma remove_big_factors_value:
  "remove_big_factors d factor c = (d', c') \<Longrightarrow> d' * factor ^ (c' - c) = d \<and> c \<le> c'"
proof (induction d factor c arbitrary: d' c' rule: remove_big_factors.induct)
  case (1 d factor c)
  show ?case
  proof (cases "d \<noteq> 0 \<and> 2 \<le> factor \<and> d mod factor = 0")
    case True
    with "1.prems" have rec: "remove_big_factors (d div factor) factor (Suc c) = (d', c')"
      by (simp add: remove_big_factors.simps [of d factor c])
    from "1.IH" [OF True rec] have ih: "d' * factor ^ (c' - Suc c) = d div factor" "Suc c \<le> c'" by auto
    from ih(2) have "c' - c = Suc (c' - Suc c)" by simp
    then have "d' * factor ^ (c' - c) = (d' * factor ^ (c' - Suc c)) * factor" by (simp add: ac_simps)
    also have "\<dots> = d"
    proof -
      from True have "factor dvd d" by (simp add: dvd_eq_mod_eq_0)
      with ih(1) show ?thesis by simp
    qed
    finally show ?thesis using ih(2) by simp
  next
    case False
    with "1.prems" show ?thesis by (simp add: remove_big_factors.simps [of d factor c])
  qed
qed

lemma align_exponent3_value:
  "align_exponent3 a e = (a', e') \<Longrightarrow>
     scaled_value a' e' = scaled_value a e \<and> e' mod 3 = 0 \<and> e - 2 \<le> e' \<and> e' \<le> e"
proof (induction a e arbitrary: a' e' rule: align_exponent3.induct)
  case (1 a e)
  show ?case
  proof (cases "go_rem e 3 \<noteq> 0")
    case True
    with "1.prems" have rec: "align_exponent3 (a * 10) (e - 1) = (a', e')"
      by (simp add: align_exponent3.simps [of a e])
    from "1.IH" [OF True rec]
    have ih: "scaled_value a' e' = scaled_value (a * 10) (e - 1)" "e' mod 3 = 0" "e - 1 - 2 \<le> e'" "e' \<le> e - 1"
      by auto
    from True have "e mod 3 \<noteq> 0" by (simp add: go_rem_eq_0_iff dvd_eq_mod_eq_0)
    with ih(2,3,4) have "e - 2 \<le> e'" by presburger
    moreover have "scaled_value (a * 10) (e - 1) = scaled_value a e"
      using scaled_value_shift [of a 1 e] by simp
    ultimately show ?thesis using ih by simp
  next
    case False
    with "1.prems" show ?thesis
      by (simp add: align_exponent3.simps [of a e] go_rem_eq_0_iff dvd_eq_mod_eq_0)
  qed
qed

subsection \<open>The fast path agrees with the arbitrary-precision path\<close>

lemma strip_int64_factors_eq_big:
  "0 \<le> r \<Longrightarrow> 2 \<le> base \<Longrightarrow> strip_int64_factors base r c = remove_big_factors r base c"
proof (induction base r c rule: strip_int64_factors.induct)
  case (1 base r c)
  have cond: "(2 \<le> base \<and> base \<le> r \<and> go_rem r base = 0) \<longleftrightarrow> (r \<noteq> 0 \<and> 2 \<le> base \<and> r mod base = 0)"
  proof -
    have "r \<noteq> 0 \<Longrightarrow> base dvd r \<Longrightarrow> base \<le> r"
      using "1.prems" by (simp add: zdvd_imp_le)
    then show ?thesis using "1.prems" by (auto simp: go_rem_nonneg dvd_eq_mod_eq_0)
  qed
  show ?case
  proof (cases "2 \<le> base \<and> base \<le> r \<and> go_rem r base = 0")
    case True
    then have q: "go_quot r base = r div base" by (simp add: go_quot_nonneg)
    have "0 \<le> r div base" using "1.prems" by (simp add: pos_imp_zdiv_nonneg_iff)
    with "1.IH" [OF True] "1.prems"(2)
    have "strip_int64_factors base (r div base) (Suc c) = remove_big_factors (r div base) base (Suc c)"
      by (simp add: q)
    with True cond show ?thesis
      by (simp add: strip_int64_factors.simps [of base r c] remove_big_factors.simps [of r base c] q)
  next
    case False
    have "strip_int64_factors base r c = (r, c)"
      using False by (subst strip_int64_factors.simps) auto
    moreover have "remove_big_factors r base c = (r, c)"
      using False cond by (subst remove_big_factors.simps) auto
    ultimately show ?thesis by simp
  qed
qed

lemma remove_big_factors_uminus:
  "remove_big_factors (- d) factor c = (case remove_big_factors d factor c of (a, k) \<Rightarrow> (- a, k))"
proof (induction d factor c rule: remove_big_factors.induct)
  case (1 d factor c)
  show ?case
  proof (cases "d \<noteq> 0 \<and> 2 \<le> factor \<and> d mod factor = 0")
    case True
    then have "(- d) mod factor = 0" and "(- d) div factor = - (d div factor)"
      by (simp_all add: zmod_zminus1_eq_if zdiv_zminus1_eq_if)
    with True "1.IH" [OF True] show ?thesis
      by (simp add: remove_big_factors.simps [of d factor c] remove_big_factors.simps [of "- d" factor c])
  next
    case False
    have "(- d) mod factor = 0 \<longleftrightarrow> d mod factor = 0"
      by (simp add: dvd_eq_mod_eq_0 [symmetric])
    with False have "\<not> (- d \<noteq> 0 \<and> 2 \<le> factor \<and> (- d) mod factor = 0)"
      by auto
    then have "remove_big_factors (- d) factor c = (- d, c)"
      by (subst remove_big_factors.simps) auto
    moreover from False have "remove_big_factors d factor c = (d, c)"
      by (subst remove_big_factors.simps) auto
    ultimately show ?thesis by simp
  qed
qed

lemma remove_int64_factors_10_eq_big:
  assumes "in_int64 v"
  shows "remove_int64_factors v 10 = remove_big_factors v 10 0"
proof (cases "v < 0")
  case True
  show ?thesis
  proof (cases "v = int64_min")
    case True
    have n: "int64_min < 0" by (simp add: int64_min_def)
    have w: "wrap64 (- int64_min) = int64_min" by (simp add: wrap64_def int64_min_def)
    have st: "strip_int64_factors 10 int64_min 0 = (int64_min, 0)"
      by (subst strip_int64_factors.simps) (simp add: int64_min_def)
    have b: "remove_big_factors int64_min 10 0 = (int64_min, 0)"
      by (subst remove_big_factors.simps) (simp add: int64_min_def)
    show ?thesis using True n w st b by (simp add: remove_int64_factors_def)
  next
    case False
    with assms \<open>v < 0\<close> have nv: "in_int64 (- v)" by (simp add: in_int64_def int64_min_def int64_max_def)
    obtain r c where s: "strip_int64_factors 10 (- v) 0 = (r, c)" by fastforce
    from strip_int64_factors_value [OF s] \<open>v < 0\<close> have "0 \<le> r" "r \<le> - v" by auto
    with nv have "in_int64 (- r)" by (simp add: in_int64_def int64_min_def int64_max_def)
    moreover have "remove_big_factors (- v) 10 0 = (r, c)"
      using strip_int64_factors_eq_big [of "- v" 10 0] s \<open>v < 0\<close> by simp
    ultimately show ?thesis
      using \<open>v < 0\<close> nv s remove_big_factors_uminus [of "- v" 10 0]
      by (simp add: remove_int64_factors_def wrap64_id)
  qed
next
  case False
  then show ?thesis
    by (simp add: remove_int64_factors_def strip_int64_factors_eq_big)
qed

lemma go_rem_3_cases:
  "(go_rem e 3 = 1 \<or> go_rem e 3 = -2) \<longleftrightarrow> e mod 3 = 1"
  "(go_rem e 3 = 2 \<or> go_rem e 3 = -1) \<longleftrightarrow> e mod 3 = 2"
proof -
  have r: "go_rem e 3 = (if 0 \<le> e then e mod 3 else - ((- e) mod 3))"
    by (simp add: go_rem_nonneg go_rem_neg)
  show "(go_rem e 3 = 1 \<or> go_rem e 3 = -2) \<longleftrightarrow> e mod 3 = 1" unfolding r by presburger
  show "(go_rem e 3 = 2 \<or> go_rem e 3 = -1) \<longleftrightarrow> e mod 3 = 2" unfolding r by presburger
qed

lemma align_exponent3_eq:
  "align_exponent3 a e =
     (if e mod 3 = 1 then (a * 10, e - 1) else if e mod 3 = 2 then (a * 100, e - 2) else (a, e))"
proof -
  have nz: "go_rem x 3 \<noteq> 0 \<longleftrightarrow> x mod 3 \<noteq> 0" for x :: int
    by (simp add: go_rem_eq_0_iff dvd_eq_mod_eq_0)
  have "e mod 3 = 0 \<or> e mod 3 = 1 \<or> e mod 3 = 2" by presburger
  then consider "e mod 3 = 0" | "e mod 3 = 1" | "e mod 3 = 2" by blast
  then show ?thesis
  proof cases
    case 1
    then show ?thesis by (simp add: align_exponent3.simps [of a e] nz)
  next
    case 2
    then have "(e - 1) mod 3 = 0" by presburger
    with 2 show ?thesis
      by (simp add: align_exponent3.simps [of a e] align_exponent3.simps [of "a * 10" "e - 1"] nz)
  next
    case 3
    then have "(e - 1) mod 3 = 1" "(e - 2) mod 3 = 0" by presburger+
    with 3 show ?thesis
      by (simp add: align_exponent3.simps [of a e] align_exponent3.simps [of "a * 10" "e - 1"]
          align_exponent3.simps [of "100 * a" "e - 2"] nz)
  qed
qed

lemma as_canonical_bytes_eq_big:
  assumes v: "in_int64 v"
  shows "as_canonical_bytes v s = big_canonical_bytes v s"
proof -
  obtain a k where ak: "remove_big_factors v 10 0 = (a, k)" by fastforce
  then have ak': "remove_int64_factors v 10 = (a, k)" using v by (simp add: remove_int64_factors_10_eq_big)
  have "a * 10 ^ k = v" using remove_int64_factors_value [OF v _ ak'] by simp
  then have "(0 \<le> a \<and> a \<le> v) \<or> (a < 0 \<and> v \<le> a)"
    using mult_left_mono [of 1 "10 ^ k" a] mult_left_mono_neg [of 1 "10 ^ k" a]
    by (cases "0 \<le> a") auto
  with v have a: "in_int64 a" unfolding in_int64_def int64_min_def int64_max_def by auto
  have m10: "snd (int64_multiply_scale a 10) \<Longrightarrow> fst (int64_multiply_scale a 10) = a * 10"
    and m100: "snd (int64_multiply_scale a 100) \<Longrightarrow> fst (int64_multiply_scale a 100) = a * 100"
    using int64_multiply_scale_ok [OF a] by simp_all
  show ?thesis
    using ak ak' m10 m100
    by (auto simp: as_canonical_bytes_def big_canonical_bytes_def align_exponent3_eq go_rem_3_cases
        Let_def split: prod.splits)
qed

subsection \<open>The rendering reads back to the value\<close>

text \<open>For a quantity in range, the reference reader maps \<open>String\<close>'s text back to
  the quantity's value, on the decimal, exponent and binary paths alike.\<close>

lemma read_quantity_suffix:
  "no_digit_start sfx \<Longrightarrow> suffix_value sfx = Some m \<Longrightarrow>
     read_quantity (format_int a @ sfx) = Some (of_int a * m)"
  by (simp add: read_quantity_def parse_int_format_int)

lemma big_canonical_bytes_value:
  assumes "big_canonical_bytes v s = (num, e)" "v \<noteq> 0"
  shows "\<exists>a. num = format_int a \<and> a \<noteq> 0 \<and> scaled_value a e = scaled_value v s
           \<and> e mod 3 = 0 \<and> s - 2 \<le> e"
proof -
  obtain d c where rb: "remove_big_factors v 10 0 = (d, c)" by fastforce
  obtain a e' where al: "align_exponent3 d (s + int c) = (a, e')" by fastforce
  from remove_big_factors_value [OF rb] have "d * 10 ^ c = v" by simp
  then have "scaled_value d (s + int c) = scaled_value v s"
    using scaled_value_shift [of d c "s + int c"] by simp
  moreover from align_exponent3_value [OF al]
  have "scaled_value a e' = scaled_value d (s + int c)" "e' mod 3 = 0" "s + int c - 2 \<le> e'" by auto
  moreover from assms(1) rb al have "num = format_int a" "e = e'" by (simp_all add: big_canonical_bytes_def)
  ultimately show ?thesis using assms(2) by (auto simp: scaled_value_powi)
qed

lemma dec_suffix_lookup:
  assumes "e mod 3 = 0" "-9 \<le> e" "e \<le> 18"
  shows "\<exists>sfx. construct_suffix 10 e DecimalSI = Some sfx \<and> no_digit_start sfx
           \<and> suffix_value sfx = Some (10 powi e)"
proof -
  from assms have "e = -9 \<or> e = -6 \<or> e = -3 \<or> e = 0 \<or> e = 3 \<or> e = 6 \<or> e = 9 \<or> e = 12
      \<or> e = 15 \<or> e = 18" by presburger
  then show ?thesis
    by (elim disjE)
       (simp_all add: construct_suffix_def dec_suffixes_def bin_suffixes_def suffix_value_def
          no_digit_start_def is_digit_def digit_val_def)
qed

lemma exp_suffix_lookup:
  "\<exists>sfx. construct_suffix 10 e DecimalExponent = Some sfx \<and> no_digit_start sfx
     \<and> suffix_value sfx = Some (10 powi e)"
proof (cases "e = 0")
  case True
  then show ?thesis
    by (simp add: construct_suffix_def dec_suffixes_def bin_suffixes_def suffix_value_def
        no_digit_start_def)
next
  case False
  have "parse_int (format_int e) = Some (e, [])"
    using parse_int_format_int [of "[]" e] by (simp add: no_digit_start_def)
  with False show ?thesis
    by (simp add: construct_suffix_def dec_suffixes_def bin_suffixes_def suffix_value_def
        no_digit_start_def is_digit_def digit_val_def)
qed

lemma bin_suffix_lookup:
  assumes "k \<le> 6"
  shows "no_digit_start (case construct_suffix 2 (int k * 10) BinarySI of None \<Rightarrow> [] | Some suf \<Rightarrow> suf)
    \<and> suffix_value (case construct_suffix 2 (int k * 10) BinarySI of None \<Rightarrow> [] | Some suf \<Rightarrow> suf)
        = Some (2 ^ (10 * k))"
proof -
  from assms have "k = 0 \<or> k = 1 \<or> k = 2 \<or> k = 3 \<or> k = 4 \<or> k = 5 \<or> k = 6" by arith
  then show ?thesis
    by (elim disjE)
       (simp_all add: construct_suffix_def dec_suffixes_def bin_suffixes_def suffix_value_def
          no_digit_start_def is_digit_def digit_val_def)
qed

lemma powi_10_below: "(10::rat) powi e < 10 ^ 21 \<Longrightarrow> e < 21"
proof (rule ccontr)
  assume "(10::rat) powi e < 10 ^ 21" "\<not> e < 21"
  then have "21 \<le> nat e" and "(10::rat) powi e = 10 ^ nat e"
    by (simp_all add: powi_10_nonneg)
  moreover from this(1) have "(10::rat) ^ 21 \<le> 10 ^ nat e" by (rule power_increasing) simp
  ultimately show False using \<open>(10::rat) powi e < 10 ^ 21\<close> by simp
qed

lemma decimal_rendering_reads_back:
  assumes v: "in_int64 v" "v \<noteq> 0" and s: "-9 \<le> s" and bound: "\<bar>scaled_value v s\<bar> < 10 ^ 21"
    and fmt: "fmt = DecimalSI \<or> fmt = DecimalExponent"
  shows "read_quantity (case as_canonical_bytes v s of (number, exponent) \<Rightarrow>
           number @ (case construct_suffix 10 exponent fmt of None \<Rightarrow> [] | Some suf \<Rightarrow> suf))
         = Some (scaled_value v s)"
proof -
  obtain num e where b: "big_canonical_bytes v s = (num, e)" by fastforce
  then obtain a where a: "num = format_int a" "a \<noteq> 0" "scaled_value a e = scaled_value v s"
      "e mod 3 = 0" "s - 2 \<le> e"
    using big_canonical_bytes_value [OF b v(2)] by auto
  have p: "(0::rat) < 10 powi e" by simp
  have "(1::int) \<le> \<bar>a\<bar>" using a(2) by arith
  then have "(1::rat) \<le> of_int \<bar>a\<bar>" by simp
  then have "(10::rat) powi e \<le> of_int \<bar>a\<bar> * 10 powi e"
    using mult_right_mono [of 1 "of_int \<bar>a\<bar>" "(10::rat) powi e"] p by simp
  also have "\<dots> = \<bar>scaled_value a e\<bar>" using p by (simp add: scaled_value_powi abs_mult)
  also have "\<dots> = \<bar>scaled_value v s\<bar>" using a(3) by simp
  also have "\<dots> < 10 ^ 21" by (rule bound)
  finally have "e < 21" by (rule powi_10_below)
  with a(4,5) s have range: "-9 \<le> e" "e \<le> 18" by presburger+
  have "\<exists>sfx. construct_suffix 10 e fmt = Some sfx \<and> no_digit_start sfx
      \<and> suffix_value sfx = Some (10 powi e)"
    using fmt dec_suffix_lookup [OF a(4) range] exp_suffix_lookup [of e] by blast
  then obtain sfx where "construct_suffix 10 e fmt = Some sfx" "no_digit_start sfx"
      "suffix_value sfx = Some (10 powi e)" by blast
  then show ?thesis
    using as_canonical_bytes_eq_big [OF v(1)] b a(1,3)
    by (simp add: read_quantity_suffix scaled_value_powi)
qed

lemma as_canonical_base1024_bytes_value:
  "as_canonical_base1024_bytes m s = (num, k) \<Longrightarrow>
     \<exists>a. num = format_int a \<and> a * 1024 ^ k = m * 10 ^ nat s"
  using remove_int64_factors_value [of "m * 10 ^ nat s" 1024] remove_big_factors_value [of "m * 10 ^ nat s" 1024 0]
  by (auto simp: as_canonical_base1024_bytes_def Let_def split: if_splits prod.splits)

lemma binary_rendering_reads_back:
  assumes n: "n \<noteq> 0" "\<bar>n\<bar> < 10 ^ 21" and r: "rv * 10 ^ nat rs = n"
    and c: "as_canonical_base1024_bytes rv rs = (number, k)"
  shows "read_quantity (number @ (case construct_suffix 2 (int k * 10) BinarySI of None \<Rightarrow> [] | Some suf \<Rightarrow> suf))
         = Some (of_int n)"
proof -
  obtain a where a: "number = format_int a" "a * 1024 ^ k = n"
    using as_canonical_base1024_bytes_value [OF c] r by blast
  with n have "a \<noteq> 0" by auto
  then have "(1024::int) ^ k \<le> \<bar>a\<bar> * 1024 ^ k" by (simp add: mult_le_cancel_right1)
  also have "\<dots> < 10 ^ 21" using a(2) n(2) by (simp add: abs_mult)
  also have "(10::int) ^ 21 < 1024 ^ 7" by simp
  finally have "k < 7" using power_strict_increasing_iff [of "1024::int" k 7] by simp
  then have "k \<le> 6" by simp
  have "(2::rat) ^ (10 * k) = 1024 ^ k" by (simp add: power_mult)
  moreover have "(of_int n :: rat) = of_int a * 1024 ^ k" by (simp flip: a(2))
  ultimately show ?thesis
    using bin_suffix_lookup [OF \<open>k \<le> 6\<close>] a(1) by (simp add: read_quantity_suffix)
qed

lemma read_quantity_zero: "read_quantity ''0'' = Some 0"
  using read_quantity_suffix [of "[]" 1 0]
  by (simp add: format_int_def digits10.simps digit_char_def no_digit_start_def
      suffix_value_def bin_suffixes_def dec_suffixes_def)

lemma canonical_string_reads_back:
  assumes "quantity_in_range q"
  shows "read_quantity (canonical_string q) = Some (quantity_value q)"
proof -
  define v where "v = amount_value q"
  define s where "s = amount_scale q"
  define fmt where "fmt = (case qformat q of OtherFormat _ \<Rightarrow> DecimalExponent | f \<Rightarrow> f)"
  define small where "small = (if 0 \<le> s then \<bar>v * 10 ^ nat s\<bar> < 1024 else \<bar>v\<bar> < 1024 * 10 ^ nat (- s))"
  define exact where "exact = (0 \<le> s \<or> 10 ^ nat (- s) dvd v)"
  define fmt' where "fmt' = (if fmt = BinarySI \<and> (small \<or> \<not> exact) then DecimalSI else fmt)"
  have str: "canonical_string q =
      (if v = 0 then ''0''
       else if fmt' = BinarySI then
         (let (rv, rs) = (if 0 \<le> s then (v, s) else (v div 10 ^ nat (- s), 0));
              (number, exponent) = as_canonical_base1024_bytes rv rs
          in number @ (case construct_suffix 2 (int exponent * 10) fmt' of None \<Rightarrow> [] | Some suf \<Rightarrow> suf))
       else
         (let (number, exponent) = as_canonical_bytes v s
          in number @ (case construct_suffix 10 exponent fmt' of None \<Rightarrow> [] | Some suf \<Rightarrow> suf)))"
    by (simp add: canonical_string_def v_def s_def fmt_def small_def exact_def fmt'_def Let_def)
  have val: "quantity_value q = scaled_value v s" by (simp add: quantity_value_def v_def s_def)
  from assms have v: "in_int64 v" and s: "-9 \<le> s" and bound: "\<bar>scaled_value v s\<bar> < 10 ^ 21"
    by (simp_all add: quantity_in_range_def v_def s_def val)
  show ?thesis
  proof (cases "v = 0")
    case True
    then show ?thesis using str val read_quantity_zero by (simp add: scaled_value_def)
  next
    case False
    show ?thesis
    proof (cases "fmt' = BinarySI")
      case True
      then have ex: "exact" by (auto simp: fmt'_def split: if_splits)
      define rv where "rv = (if 0 \<le> s then v else v div 10 ^ nat (- s))"
      define rs where "rs = (if 0 \<le> s then s else 0)"
      have n: "scaled_value v s = of_int (rv * 10 ^ nat rs)"
        using ex by (auto simp: scaled_value_def rv_def rs_def exact_def of_int_div)
      obtain number k where c: "as_canonical_base1024_bytes rv rs = (number, k)" by fastforce
      have "rv * 10 ^ nat rs \<noteq> 0"
        using n \<open>v \<noteq> 0\<close> by (auto simp: scaled_value_def split: if_splits)
      moreover have "\<bar>rv * 10 ^ nat rs\<bar> < 10 ^ 21"
      proof -
        have "(of_int \<bar>rv * 10 ^ nat rs\<bar> :: rat) < of_int (10 ^ 21)" using bound n by simp
        then show ?thesis by (simp only: of_int_less_iff)
      qed
      ultimately have "read_quantity (number @ (case construct_suffix 2 (int k * 10) BinarySI of
          None \<Rightarrow> [] | Some suf \<Rightarrow> suf)) = Some (of_int (rv * 10 ^ nat rs))"
        using binary_rendering_reads_back c by blast
      then show ?thesis
        using str \<open>v \<noteq> 0\<close> True c n val by (simp add: rv_def rs_def split: if_splits)
    next
      case False
      then have "fmt' = DecimalSI \<or> fmt' = DecimalExponent"
        by (cases "qformat q") (auto simp: fmt'_def fmt_def)
      from decimal_rendering_reads_back [OF v \<open>v \<noteq> 0\<close> s bound this]
      show ?thesis using str \<open>v \<noteq> 0\<close> False val by simp
    qed
  qed
qed

lemma quantity_String_reads_back:
  "quantity_in_range q \<Longrightarrow> cached_text q = [] \<Longrightarrow>
     read_quantity (quantity_String q) = Some (quantity_value q)"
  by (simp add: quantity_String_def canonical_string_reads_back)

text \<open>A resource-list entry without cached text, rendered as a cell, reads back to
  the entry's value.\<close>

lemma read_rendered_entry:
  "pred_option (\<lambda>q. quantity_in_range q \<and> cached_text q = []) x \<Longrightarrow>
     Option.bind (map_option quantity_String x) read_quantity = map_option quantity_value x"
  by (cases x) (simp_all add: quantity_String_reads_back)

end
