(* ===== verification/GoJSON.thy ===== *)
theory GoJSON
  imports Strconv
begin

text \<open>
  The part of Go's \<open>encoding/json\<close> that \<open>json.Marshal\<close> uses on the node
  affinity types: a JSON value tree, its compact text (\<open>encodeState\<close> with
  \<open>escapeHTML\<close> on, as \<open>json.Marshal\<close> sets it), and the string encoder
  \<open>encodeState.string\<close>.  Strings are byte lists, as Go's are; the encoder
  decodes UTF-8 to replace invalid bytes by U+FFFD and to escape U+2028 and
  U+2029.  The last section shows the text never contains a raw control character
  or one of \<open><\<close>, \<open>>\<close>, \<open>&\<close>, whatever bytes the strings hold.
\<close>

datatype json = JNull | JString string | JArray "json list" | JObject "(string \<times> json) list"

subsection \<open>UTF-8 decoding (\<open>utf8.DecodeRuneInString\<close>)\<close>

definition byte :: "char \<Rightarrow> nat" where
  "byte c = of_char c"

definition in_range :: "nat \<Rightarrow> nat \<Rightarrow> char \<Rightarrow> bool" where
  "in_range lo hi c \<longleftrightarrow> lo \<le> byte c \<and> byte c \<le> hi"

text \<open>Length of the valid UTF-8 sequence starting a non-ASCII byte string, or 0
  when it is invalid (Go then reports \<open>RuneError\<close> of size 1).  The accepted
  second bytes follow Go's \<open>acceptRanges\<close>: no overlong forms, no surrogates, nothing
  above U+10FFFF.\<close>

fun utf8_seq_len :: "string \<Rightarrow> nat" where
  "utf8_seq_len (c0 # c1 # rest) =
     (if in_range 0xC2 0xDF c0 \<and> in_range 0x80 0xBF c1 then 2
      else (case rest of
        c2 # rest' \<Rightarrow>
          if ((byte c0 = 0xE0 \<and> in_range 0xA0 0xBF c1)
              \<or> ((in_range 0xE1 0xEC c0 \<or> in_range 0xEE 0xEF c0) \<and> in_range 0x80 0xBF c1)
              \<or> (byte c0 = 0xED \<and> in_range 0x80 0x9F c1)) \<and> in_range 0x80 0xBF c2
          then 3
          else (case rest' of
            c3 # _ \<Rightarrow>
              if ((byte c0 = 0xF0 \<and> in_range 0x90 0xBF c1)
                  \<or> (in_range 0xF1 0xF3 c0 \<and> in_range 0x80 0xBF c1)
                  \<or> (byte c0 = 0xF4 \<and> in_range 0x80 0x8F c1))
                 \<and> in_range 0x80 0xBF c2 \<and> in_range 0x80 0xBF c3
              then 4 else 0
          | [] \<Rightarrow> 0)
      | [] \<Rightarrow> 0))"
| "utf8_seq_len _ = 0"

subsection \<open>The string encoder\<close>

definition hex_digit :: "nat \<Rightarrow> char" where
  "hex_digit n = ''0123456789abcdef'' ! n"

text \<open>\<open>htmlSafeSet\<close>: printable ASCII (DEL included) except quote, backslash and
  the HTML-sensitive \<open><\<close>, \<open>>\<close>, \<open>&\<close>.\<close>

definition html_safe :: "char \<Rightarrow> bool" where
  "html_safe c \<longleftrightarrow> 0x20 \<le> byte c \<and> byte c < 0x80
     \<and> byte c \<notin> {0x22, 0x5C, 0x3C, 0x3E, 0x26}"

definition escape_ascii :: "char \<Rightarrow> string" where
  "escape_ascii c =
     (if html_safe c then [c]
      else if byte c = 0x5C \<or> byte c = 0x22 then [CHR 0x5C, c]
      else if byte c = 0x0A then [CHR 0x5C, CHR ''n'']
      else if byte c = 0x0D then [CHR 0x5C, CHR ''r'']
      else if byte c = 0x09 then [CHR 0x5C, CHR ''t'']
      else [CHR 0x5C, CHR ''u'', CHR ''0'', CHR ''0'', hex_digit (byte c div 16), hex_digit (byte c mod 16)])"

function encode_string_body :: "string \<Rightarrow> string" where
  "encode_string_body [] = []"
| "encode_string_body (c # cs) =
     (if byte c < 0x80 then escape_ascii c @ encode_string_body cs
      else (let n = utf8_seq_len (c # cs) in
        if n = 0 then CHR 0x5C # ''ufffd'' @ encode_string_body cs
        else if take 3 (c # cs) = [CHR 0xE2, CHR 0x80, CHR 0xA8] then CHR 0x5C # ''u2028'' @ encode_string_body (drop 3 (c # cs))
        else if take 3 (c # cs) = [CHR 0xE2, CHR 0x80, CHR 0xA9] then CHR 0x5C # ''u2029'' @ encode_string_body (drop 3 (c # cs))
        else take n (c # cs) @ encode_string_body (drop n (c # cs))))"
  by pat_completeness auto
termination
  by (relation "measure length") (auto simp: utf8_seq_len.simps)

definition json_string :: "string \<Rightarrow> string" where
  "json_string s = CHR 0x22 # encode_string_body s @ [CHR 0x22]"

subsection \<open>The compact text of a value\<close>

text \<open>Array elements and object members are written one after the other with a
  comma between them.\<close>

fun comma_join :: "string list \<Rightarrow> string" where
  "comma_join [] = []"
| "comma_join [x] = x"
| "comma_join (x # xs) = x @ CHR '','' # comma_join xs"

fun json_text :: "json \<Rightarrow> string" where
  "json_text JNull = ''null''"
| "json_text (JString s) = json_string s"
| "json_text (JArray vs) = CHR ''['' # comma_join (map json_text vs) @ '']''"
| "json_text (JObject ms) =
     CHR ''{'' # comma_join (map (\<lambda>(k, v). json_string k @ CHR '':'' # json_text v) ms) @ ''}''"

subsection \<open>Characters of the text\<close>

text \<open>The characters \<open>json.Marshal\<close> may leave raw in its output: no control
  character and none of the HTML-sensitive \<open><\<close>, \<open>>\<close>, \<open>&\<close>.\<close>

definition json_safe_char :: "char \<Rightarrow> bool" where
  "json_safe_char c \<longleftrightarrow> 0x20 \<le> byte c \<and> c \<notin> {CHR ''<'', CHR ''>'', CHR ''&''}"

subsection \<open>The text is HTML-safe\<close>

lemma utf8_seq_len_high:
  assumes "utf8_seq_len s \<noteq> 0" "x \<in> set (take (utf8_seq_len s) s)"
  shows "0x80 \<le> byte x"
proof -
  obtain c0 c1 rest where s: "s = c0 # c1 # rest"
    using assms(1) by (cases s rule: utf8_seq_len.cases) auto
  show ?thesis
  proof (cases "in_range 0xC2 0xDF c0 \<and> in_range 0x80 0xBF c1")
    case True
    then have "utf8_seq_len s = 2" "0x80 \<le> byte c0" "0x80 \<le> byte c1"
      by (simp_all add: s in_range_def)
    then show ?thesis using assms(2) by (auto simp: s)
  next
    case c2: False
    then obtain c2 rest' where r: "rest = c2 # rest'"
      using assms(1) by (cases rest) (auto simp: s)
    show ?thesis
    proof (cases "((byte c0 = 0xE0 \<and> in_range 0xA0 0xBF c1)
              \<or> ((in_range 0xE1 0xEC c0 \<or> in_range 0xEE 0xEF c0) \<and> in_range 0x80 0xBF c1)
              \<or> (byte c0 = 0xED \<and> in_range 0x80 0x9F c1)) \<and> in_range 0x80 0xBF c2")
      case True
      then have "utf8_seq_len s = 3" using c2 by (simp add: s r)
      moreover from True have "0x80 \<le> byte c0" "0x80 \<le> byte c1" "0x80 \<le> byte c2"
        unfolding in_range_def by auto
      ultimately show ?thesis using assms(2) by (auto simp: s r)
    next
      case c3: False
      then obtain c3 rest'' where r': "rest' = c3 # rest''"
        using assms(1) c2 by (cases rest') (auto simp: s r)
      have "utf8_seq_len s = 4"
        and b: "((byte c0 = 0xF0 \<and> in_range 0x90 0xBF c1)
                  \<or> (in_range 0xF1 0xF3 c0 \<and> in_range 0x80 0xBF c1)
                  \<or> (byte c0 = 0xF4 \<and> in_range 0x80 0x8F c1))
                 \<and> in_range 0x80 0xBF c2 \<and> in_range 0x80 0xBF c3"
        using assms(1) c2 c3 by (simp_all add: s r r' split: if_splits)
      moreover from b have "0x80 \<le> byte c0" "0x80 \<le> byte c1" "0x80 \<le> byte c2" "0x80 \<le> byte c3"
        unfolding in_range_def by auto
      ultimately show ?thesis using assms(2) by (auto simp: s r r')
    qed
  qed
qed

lemma hex_digit_safe: "n < 16 \<Longrightarrow> json_safe_char (hex_digit n)"
proof -
  assume "n < 16"
  then have "n < length ''0123456789abcdef''" by simp
  then have "hex_digit n \<in> set ''0123456789abcdef''" unfolding hex_digit_def by (rule nth_mem)
  moreover have "\<forall>c \<in> set ''0123456789abcdef''. json_safe_char c"
    by (simp add: json_safe_char_def byte_def)
  ultimately show ?thesis by blast
qed

lemma escape_ascii_safe: "byte c < 0x80 \<Longrightarrow> x \<in> set (escape_ascii c) \<Longrightarrow> json_safe_char x"
proof -
  assume "x \<in> set (escape_ascii c)"
  moreover have "byte c div 16 < 16" "byte c mod 16 < 16" if "byte c < 0x80" using that by simp_all
  moreover have "json_safe_char c" if "html_safe c"
    using that by (auto simp: html_safe_def json_safe_char_def byte_def)
  moreover have "json_safe_char (CHR 0x5C)" "json_safe_char (CHR 0x22)" "json_safe_char (CHR ''n'')"
    "json_safe_char (CHR ''r'')" "json_safe_char (CHR ''t'')" "json_safe_char (CHR ''u'')"
    "json_safe_char (CHR ''0'')"
    by (simp_all add: json_safe_char_def byte_def)
  moreover have "byte c = 0x5C \<or> byte c = 0x22 \<Longrightarrow> json_safe_char c"
    by (auto simp: json_safe_char_def byte_def)
  ultimately show "byte c < 0x80 \<Longrightarrow> json_safe_char x"
    unfolding escape_ascii_def using hex_digit_safe by (auto split: if_splits)
qed

lemma json_safe_high: "0x80 \<le> byte c \<Longrightarrow> json_safe_char c"
  by (auto simp: json_safe_char_def byte_def)

lemma encode_string_body_safe: "x \<in> set (encode_string_body s) \<Longrightarrow> json_safe_char x"
proof (induction s rule: encode_string_body.induct)
  case 1
  then show ?case by simp
next
  case (2 c cs)
  have esc: "json_safe_char y" if "y \<in> set (CHR 0x5C # ''ufffd'') \<or> y \<in> set (CHR 0x5C # ''u2028'')
      \<or> y \<in> set (CHR 0x5C # ''u2029'')" for y
    using that by (auto simp: json_safe_char_def byte_def)
  show ?case
  proof (cases "byte c < 0x80")
    case True
    with "2.prems" have "x \<in> set (escape_ascii c) \<or> x \<in> set (encode_string_body cs)" by simp
    with True "2.IH"(1) show ?thesis by (auto simp: escape_ascii_safe)
  next
    case False
    let ?n = "utf8_seq_len (c # cs)"
    have high: "json_safe_char y" if "?n \<noteq> 0" "y \<in> set (take ?n (c # cs))" for y
      using utf8_seq_len_high [OF that] by (rule json_safe_high)
    from "2.prems" False have x: "x \<in> set (if ?n = 0 then CHR 0x5C # ''ufffd'' @ encode_string_body cs
        else if take 3 (c # cs) = [CHR 0xE2, CHR 0x80, CHR 0xA8] then CHR 0x5C # ''u2028'' @ encode_string_body (drop 3 (c # cs))
        else if take 3 (c # cs) = [CHR 0xE2, CHR 0x80, CHR 0xA9] then CHR 0x5C # ''u2029'' @ encode_string_body (drop 3 (c # cs))
        else take ?n (c # cs) @ encode_string_body (drop ?n (c # cs)))"
      by (simp add: Let_def)
    note ih = "2.IH"(2) [OF False refl] "2.IH"(3) [OF False refl] "2.IH"(4) [OF False refl]
      "2.IH"(5) [OF False refl]
    from x show ?thesis
    proof (simp only: split: if_splits)
      assume "?n = 0" "x \<in> set (CHR 0x5C # ''ufffd'' @ encode_string_body cs)"
      then show ?thesis using ih(1) esc by auto
    qed (use ih esc high in auto)
  qed
qed


lemma json_string_safe: "x \<in> set (json_string s) \<Longrightarrow> json_safe_char x"
  using encode_string_body_safe [of x s]
  by (auto simp: json_string_def json_safe_char_def byte_def)

lemma comma_join_set: "set (comma_join xs) \<subseteq> insert (CHR '','') (\<Union>x \<in> set xs. set x)"
  by (induction xs rule: comma_join.induct) auto

lemma json_text_safe: "x \<in> set (json_text v) \<Longrightarrow> json_safe_char x"
proof (induction v arbitrary: x)
  case JNull
  then show ?case by (auto simp: json_safe_char_def byte_def)
next
  case (JString s)
  then show ?case by (simp add: json_string_safe)
next
  case (JArray vs)
  have "json_safe_char (CHR ''['')" "json_safe_char (CHR '']'')" "json_safe_char (CHR '','')"
    by (simp_all add: json_safe_char_def byte_def)
  with JArray show ?case using comma_join_set [of "map json_text vs"] by auto
next
  case (JObject ms)
  have "json_safe_char (CHR ''{'')" "json_safe_char (CHR ''}'')" "json_safe_char (CHR '','')"
    "json_safe_char (CHR '':'')"
    by (simp_all add: json_safe_char_def byte_def)
  with JObject show ?case
    using comma_join_set [of "map (\<lambda>(k, v). json_string k @ CHR '':'' # json_text v) ms"]
    by (fastforce simp: json_string_safe)
qed

end
