(* ===== verification/NodeAffinity.thy ===== *)
theory NodeAffinity
  imports GoJSON
begin

text \<open>
  The node affinity of a persistent volume (\<open>corev1.VolumeNodeAffinity\<close> and the
  \<open>NodeSelector\<close> types under it) and what \<open>json.Marshal\<close> makes of it.  The
  struct tags decide the text: \<open>required\<close>, \<open>matchExpressions\<close>,
  \<open>matchFields\<close> and \<open>values\<close> are \<open>omitempty\<close>, so a nil pointer or an empty
  slice leaves its key out; \<open>nodeSelectorTerms\<close>, \<open>key\<close> and \<open>operator\<close> are
  always written, a nil \<open>nodeSelectorTerms\<close> slice as \<open>null\<close>.  Only that one
  slice keeps Go's nil/empty distinction (\<open>None\<close> is nil), because only there does
  the encoder see it.
\<close>

record NodeSelectorRequirement =
  Key :: string
  Operator :: string
  Values :: "string list"

record NodeSelectorTerm =
  MatchExpressions :: "NodeSelectorRequirement list"
  MatchFields :: "NodeSelectorRequirement list"

record NodeSelector =
  NodeSelectorTerms :: "NodeSelectorTerm list option"

record VolumeNodeAffinity =
  Required :: "NodeSelector option"

subsection \<open>Marshalling\<close>

definition requirement_json :: "NodeSelectorRequirement \<Rightarrow> json" where
  "requirement_json r =
     JObject ([(''key'', JString (Key r)), (''operator'', JString (Operator r))]
       @ (if Values r = [] then [] else [(''values'', JArray (map JString (Values r)))]))"

definition term_json :: "NodeSelectorTerm \<Rightarrow> json" where
  "term_json t =
     JObject ((if MatchExpressions t = [] then []
               else [(''matchExpressions'', JArray (map requirement_json (MatchExpressions t)))])
       @ (if MatchFields t = [] then []
          else [(''matchFields'', JArray (map requirement_json (MatchFields t)))]))"

definition selector_json :: "NodeSelector \<Rightarrow> json" where
  "selector_json s =
     JObject [(''nodeSelectorTerms'',
       (case NodeSelectorTerms s of None \<Rightarrow> JNull | Some ts \<Rightarrow> JArray (map term_json ts)))]"

definition affinity_json :: "VolumeNodeAffinity \<Rightarrow> json" where
  "affinity_json a = JObject (case Required a of None \<Rightarrow> [] | Some s \<Rightarrow> [(''required'', selector_json s)])"

definition json_Marshal :: "VolumeNodeAffinity \<Rightarrow> string" where
  "json_Marshal a = json_text (affinity_json a)"

subsection \<open>The omitempty contract\<close>

text \<open>The members whose struct tag says \<open>omitempty\<close>, and the values the encoder
  counts as empty for them (nil pointer or slice, empty slice or string).\<close>

definition omitempty_keys :: "string list" where
  "omitempty_keys = [''required'', ''matchExpressions'', ''matchFields'', ''values'']"

fun empty_json :: "json \<Rightarrow> bool" where
  "empty_json JNull = True"
| "empty_json (JString s) = (s = [])"
| "empty_json (JArray vs) = (vs = [])"
| "empty_json (JObject ms) = (ms = [])"

text \<open>No member tagged \<open>omitempty\<close> is written with an empty value, at any depth.\<close>

fun no_empty_omitempty :: "json \<Rightarrow> bool" where
  "no_empty_omitempty (JObject ms) =
     list_all (\<lambda>(k, v). (k \<in> set omitempty_keys \<longrightarrow> \<not> empty_json v) \<and> no_empty_omitempty v) ms"
| "no_empty_omitempty (JArray vs) = list_all no_empty_omitempty vs"
| "no_empty_omitempty _ = True"

lemma affinity_json_omitempty: "no_empty_omitempty (affinity_json a)"
  by (auto simp: affinity_json_def selector_json_def term_json_def requirement_json_def
      omitempty_keys_def list_all_iff split: option.splits)

end
