(* ===== verification/JSONDecode.thy ===== *)
theory JSONDecode
  imports NodeAffinity
begin

text \<open>
  A reference reader for the compact JSON text that \<open>json.Marshal\<close> writes, and
  a decoder from JSON values back to \<open>VolumeNodeAffinity\<close> in the manner of
  \<open>json.Unmarshal\<close> (a missing or null member leaves the zero value).  Neither is
  code of the program: they state what the \<open>nodeaffinity\<close> cell determines.  The
  value reader runs on fuel, one unit per nested call; the round trip shows the
  length of the text is always enough.
\<close>

subsection \<open>Strings\<close>

definition hex_val :: "char \<Rightarrow> nat option" where
  "hex_val c =
     (let n = byte c in
      if 0x30 \<le> n \<and> n \<le> 0x39 then Some (n - 0x30)
      else if 0x61 \<le> n \<and> n \<le> 0x66 then Some (n - 0x61 + 10)
      else if 0x41 \<le> n \<and> n \<le> 0x46 then Some (n - 0x41 + 10)
      else None)"

definition hex4 :: "string \<Rightarrow> nat option" where
  "hex4 s =
     (case map hex_val s of
        [Some a, Some b, Some c, Some d] \<Rightarrow> Some (((a * 16 + b) * 16 + c) * 16 + d)
      | _ \<Rightarrow> None)"

text \<open>UTF-8 bytes of a code point of the basic plane.\<close>

definition utf8_encode :: "nat \<Rightarrow> string" where
  "utf8_encode u =
     (if u < 0x80 then [char_of u]
      else if u < 0x800 then [char_of (0xC0 + u div 64), char_of (0x80 + u mod 64)]
      else [char_of (0xE0 + u div 4096), char_of (0x80 + (u div 64) mod 64), char_of (0x80 + u mod 64)])"

definition short_escapes :: "(char \<times> char) list" where
  "short_escapes =
     [(CHR 0x22, CHR 0x22), (CHR 0x5C, CHR 0x5C), (CHR ''/'', CHR ''/''), (CHR ''b'', CHR 0x08),
      (CHR ''f'', CHR 0x0C), (CHR ''n'', CHR 0x0A), (CHR ''r'', CHR 0x0D), (CHR ''t'', CHR 0x09)]"

text \<open>The body of a string literal up to its closing quote, and the rest of the
  input.  Surrogate escapes are refused (the encoder never writes them).\<close>

function decode_string_body :: "string \<Rightarrow> (string \<times> string) option" where
  "decode_string_body [] = None"
| "decode_string_body (c # cs) =
     (if c = CHR 0x22 then Some ([], cs)
      else if c = CHR 0x5C then
        (case cs of
           [] \<Rightarrow> None
         | e # r \<Rightarrow>
             if e = CHR ''u'' then
               (case hex4 (take 4 r) of
                  None \<Rightarrow> None
                | Some u \<Rightarrow>
                    if 0xD800 \<le> u \<and> u < 0xE000 then None
                    else map_option (apfst ((@) (utf8_encode u))) (decode_string_body (drop 4 r)))
             else
               (case map_of short_escapes e of
                  None \<Rightarrow> None
                | Some d \<Rightarrow> map_option (apfst (Cons d)) (decode_string_body r)))
      else if byte c < 0x20 then None
      else map_option (apfst (Cons c)) (decode_string_body cs))"
  by pat_completeness auto
termination
  by (relation "measure length") auto

subsection \<open>Values\<close>

fun parse_value :: "nat \<Rightarrow> string \<Rightarrow> (json \<times> string) option"
and parse_elements :: "nat \<Rightarrow> string \<Rightarrow> (json list \<times> string) option"
and parse_members :: "nat \<Rightarrow> string \<Rightarrow> ((string \<times> json) list \<times> string) option" where
  "parse_value 0 s = None"
| "parse_value (Suc n) s =
     (if take 4 s = ''null'' then Some (JNull, drop 4 s)
      else case s of
        [] \<Rightarrow> None
      | c # r \<Rightarrow>
          if c = CHR 0x22 then map_option (apfst JString) (decode_string_body r)
          else if c = CHR ''['' then
            (if take 1 r = '']'' then Some (JArray [], drop 1 r)
             else map_option (apfst JArray) (parse_elements n r))
          else if c = CHR ''{'' then
            (if take 1 r = ''}'' then Some (JObject [], drop 1 r)
             else map_option (apfst JObject) (parse_members n r))
          else None)"
| "parse_elements 0 s = None"
| "parse_elements (Suc n) s =
     (case parse_value n s of
        None \<Rightarrow> None
      | Some (v, r) \<Rightarrow>
          (case r of
             [] \<Rightarrow> None
           | c # r' \<Rightarrow>
               if c = CHR '','' then map_option (apfst (Cons v)) (parse_elements n r')
               else if c = CHR '']'' then Some ([v], r')
               else None))"
| "parse_members 0 s = None"
| "parse_members (Suc n) s =
     (case s of
        [] \<Rightarrow> None
      | c # r \<Rightarrow>
          if c \<noteq> CHR 0x22 then None
          else
            (case decode_string_body r of
               None \<Rightarrow> None
             | Some (k, r1) \<Rightarrow>
                 (case r1 of
                    [] \<Rightarrow> None
                  | d # r2 \<Rightarrow>
                      if d \<noteq> CHR '':'' then None
                      else
                        (case parse_value n r2 of
                           None \<Rightarrow> None
                         | Some (v, r3) \<Rightarrow>
                             (case r3 of
                                [] \<Rightarrow> None
                              | e # r4 \<Rightarrow>
                                  if e = CHR '','' then map_option (apfst (Cons (k, v))) (parse_members n r4)
                                  else if e = CHR ''}'' then Some ([(k, v)], r4)
                                  else None)))))"

text \<open>The whole text is one value, with fuel its length.\<close>

definition read_json :: "string \<Rightarrow> json option" where
  "read_json s = (case parse_value (Suc (length s)) s of Some (v, []) \<Rightarrow> Some v | _ \<Rightarrow> None)"

subsection \<open>Well-formed strings\<close>

text \<open>A byte string is valid UTF-8 when it splits into ASCII bytes and the
  sequences \<open>utf8_seq_len\<close> accepts; on these the encoder replaces nothing.\<close>

function valid_utf8 :: "string \<Rightarrow> bool" where
  "valid_utf8 [] = True"
| "valid_utf8 (c # cs) =
     (if byte c < 0x80 then valid_utf8 cs
      else let n = utf8_seq_len (c # cs) in if n = 0 then False else valid_utf8 (drop n (c # cs)))"
  by pat_completeness auto
termination
  by (relation "measure length") auto

fun json_strings_valid :: "json \<Rightarrow> bool" where
  "json_strings_valid JNull = True"
| "json_strings_valid (JString s) = valid_utf8 s"
| "json_strings_valid (JArray vs) = list_all json_strings_valid vs"
| "json_strings_valid (JObject ms) = list_all (\<lambda>(k, v). valid_utf8 k \<and> json_strings_valid v) ms"

text \<open>The fuel the reader spends on a value: one unit per call.\<close>

fun json_fuel :: "json \<Rightarrow> nat" where
  "json_fuel JNull = 0"
| "json_fuel (JString s) = 0"
| "json_fuel (JArray vs) = Suc (sum_list (map (\<lambda>v. Suc (json_fuel v)) vs))"
| "json_fuel (JObject ms) = Suc (sum_list (map (\<lambda>(k, v). Suc (json_fuel v)) ms))"

subsection \<open>Back to the affinity\<close>

text \<open>A member that is missing or \<open>null\<close> decodes to the zero value: the empty
  string, a nil slice, a nil pointer.\<close>

fun string_of_json :: "json \<Rightarrow> string option" where
  "string_of_json (JString s) = Some s"
| "string_of_json _ = None"

definition string_member :: "(string \<times> json) list \<Rightarrow> string \<Rightarrow> string option" where
  "string_member ms k =
     (case map_of ms k of None \<Rightarrow> Some [] | Some JNull \<Rightarrow> Some [] | Some j \<Rightarrow> string_of_json j)"

definition list_member :: "(json \<Rightarrow> 'a option) \<Rightarrow> (string \<times> json) list \<Rightarrow> string \<Rightarrow> 'a list option" where
  "list_member f ms k =
     (case map_of ms k of
        None \<Rightarrow> Some []
      | Some JNull \<Rightarrow> Some []
      | Some (JArray vs) \<Rightarrow> those (map f vs)
      | Some _ \<Rightarrow> None)"

fun requirement_of_json :: "json \<Rightarrow> NodeSelectorRequirement option" where
  "requirement_of_json (JObject ms) =
     (case (string_member ms ''key'', string_member ms ''operator'', list_member string_of_json ms ''values'') of
        (Some k, Some op, Some vs) \<Rightarrow> Some \<lparr>Key = k, Operator = op, Values = vs\<rparr>
      | _ \<Rightarrow> None)"
| "requirement_of_json _ = None"

fun term_of_json :: "json \<Rightarrow> NodeSelectorTerm option" where
  "term_of_json (JObject ms) =
     (case (list_member requirement_of_json ms ''matchExpressions'',
            list_member requirement_of_json ms ''matchFields'') of
        (Some es, Some fs) \<Rightarrow> Some \<lparr>MatchExpressions = es, MatchFields = fs\<rparr>
      | _ \<Rightarrow> None)"
| "term_of_json _ = None"

fun selector_of_json :: "json \<Rightarrow> NodeSelector option" where
  "selector_of_json (JObject ms) =
     (case map_of ms ''nodeSelectorTerms'' of
        None \<Rightarrow> Some \<lparr>NodeSelectorTerms = None\<rparr>
      | Some JNull \<Rightarrow> Some \<lparr>NodeSelectorTerms = None\<rparr>
      | Some (JArray ts) \<Rightarrow> map_option (\<lambda>ts. \<lparr>NodeSelectorTerms = Some ts\<rparr>) (those (map term_of_json ts))
      | Some _ \<Rightarrow> None)"
| "selector_of_json _ = None"

fun affinity_of_json :: "json \<Rightarrow> VolumeNodeAffinity option" where
  "affinity_of_json (JObject ms) =
     (case map_of ms ''required'' of
        None \<Rightarrow> Some \<lparr>Required = None\<rparr>
      | Some JNull \<Rightarrow> Some \<lparr>Required = None\<rparr>
      | Some j \<Rightarrow> map_option (\<lambda>s. \<lparr>Required = Some s\<rparr>) (selector_of_json j))"
| "affinity_of_json _ = None"

definition read_affinity :: "string \<Rightarrow> VolumeNodeAffinity option" where
  "read_affinity s = Option.bind (read_json s) affinity_of_json"

text \<open>The strings an affinity holds: keys, operators and values.\<close>

definition requirement_strings :: "NodeSelectorRequirement \<Rightarrow> string list" where
  "requirement_strings r = Key r # Operator r # Values r"

definition affinity_strings :: "VolumeNodeAffinity \<Rightarrow> string list" where
  "affinity_strings a =
     (case Required a of
        None \<Rightarrow> []
      | Some s \<Rightarrow>
          concat (map (\<lambda>t. concat (map requirement_strings (MatchExpressions t @ MatchFields t)))
            (case NodeSelectorTerms s of None \<Rightarrow> [] | Some ts \<Rightarrow> ts)))"


subsection \<open>Reading strings back\<close>

lemma hex_val_hex_digit: "d < 16 \<Longrightarrow> hex_val (hex_digit d) = Some d"
proof -
  assume "d < 16"
  then have "d = 0 \<or> d = 1 \<or> d = 2 \<or> d = 3 \<or> d = 4 \<or> d = 5 \<or> d = 6 \<or> d = 7 \<or> d = 8 \<or> d = 9
      \<or> d = 10 \<or> d = 11 \<or> d = 12 \<or> d = 13 \<or> d = 14 \<or> d = 15" by arith
  then show ?thesis
    by (elim disjE) (simp_all add: hex_val_def hex_digit_def byte_def)
qed

lemma byte_inj: "byte c = byte d \<longleftrightarrow> c = d"
  by (simp add: byte_def)

lemma decode_escape_ascii:
  assumes "byte c < 0x80"
  shows "decode_string_body (escape_ascii c @ x) = map_option (apfst (Cons c)) (decode_string_body x)"
proof -
  consider "html_safe c" | "\<not> html_safe c" "byte c = 0x5C \<or> byte c = 0x22"
    | "\<not> html_safe c" "byte c \<noteq> 0x5C" "byte c \<noteq> 0x22" "byte c = 0x0A \<or> byte c = 0x0D \<or> byte c = 0x09"
    | "\<not> html_safe c" "byte c \<noteq> 0x5C" "byte c \<noteq> 0x22" "byte c \<noteq> 0x0A" "byte c \<noteq> 0x0D" "byte c \<noteq> 0x09"
    by blast
  then show ?thesis
  proof cases
    case 1
    then have "c \<noteq> CHR 0x22" "c \<noteq> CHR 0x5C" "\<not> byte c < 0x20"
      by (auto simp: html_safe_def byte_def)
    with 1 show ?thesis by (simp add: escape_ascii_def)
  next
    case 2
    then have "c = CHR 0x5C \<or> c = CHR 0x22"
      using byte_inj [of c "CHR 0x5C"] byte_inj [of c "CHR 0x22"] by (auto simp: byte_def)
    with 2 show ?thesis
      by (auto simp: escape_ascii_def short_escapes_def html_safe_def byte_def)
  next
    case 3
    then have "c = CHR 0x0A \<or> c = CHR 0x0D \<or> c = CHR 0x09"
      using byte_inj [of c "CHR 0x0A"] byte_inj [of c "CHR 0x0D"] byte_inj [of c "CHR 0x09"]
      by (auto simp: byte_def)
    with 3 show ?thesis
      by (auto simp: escape_ascii_def short_escapes_def html_safe_def byte_def)
  next
    case 4
    have h: "hex4 [CHR ''0'', CHR ''0'', hex_digit (byte c div 16), hex_digit (byte c mod 16)] = Some (byte c)"
      using assms by (simp add: hex4_def hex_val_hex_digit) (simp add: hex_val_def byte_def)
    have u: "utf8_encode (byte c) = [c]"
      using assms by (simp add: utf8_encode_def byte_def)
    have "(@) [c] = Cons c" by (rule ext) simp
    with 4 assms h u show ?thesis
      by (simp add: escape_ascii_def)
  qed
qed

lemma decode_high_prefix:
  "list_all (\<lambda>x. 0x80 \<le> byte x) p \<Longrightarrow>
     decode_string_body (p @ x) = map_option (apfst ((@) p)) (decode_string_body x)"
proof (induction p)
  case Nil
  have "apfst (\<lambda>a :: string. a) = (\<lambda>x :: string \<times> string. x)"
    by (rule ext) (simp add: apfst_def map_prod_def split_def)
  then show ?case by (simp add: option.map_ident)
next
  case (Cons a p)
  then have "a \<noteq> CHR 0x22" "a \<noteq> CHR 0x5C" "\<not> byte a < 0x20" by (auto simp: byte_def)
  with Cons show ?case by (simp add: option.map_comp comp_def apfst_def map_prod_def split_def)
qed

lemma char_of_bytes:
  "char_of (226::nat) = CHR 0xE2" "char_of (128::nat) = CHR 0x80" "char_of (168::nat) = CHR 0xA8"
  "char_of (169::nat) = CHR 0xA9"
  by (rule iffD1 [OF byte_inj], simp add: byte_def)+

lemma decode_line_separators:
  "decode_string_body (CHR 0x5C # CHR ''u'' # CHR ''2'' # CHR ''0'' # CHR ''2'' # CHR ''8'' # x) = map_option (apfst ((@) [CHR 0xE2, CHR 0x80, CHR 0xA8])) (decode_string_body x)"
  "decode_string_body (CHR 0x5C # CHR ''u'' # CHR ''2'' # CHR ''0'' # CHR ''2'' # CHR ''9'' # x) = map_option (apfst ((@) [CHR 0xE2, CHR 0x80, CHR 0xA9])) (decode_string_body x)"
  by (simp_all add: hex4_def hex_val_def byte_def utf8_encode_def char_of_bytes)

lemma utf8_seq_len_separator:
  "take 3 s = [CHR 0xE2, CHR 0x80, b] \<Longrightarrow> in_range 0x80 0xBF b \<Longrightarrow> utf8_seq_len s = 3"
proof -
  assume t: "take 3 s = [CHR 0xE2, CHR 0x80, b]" and "in_range 0x80 0xBF b"
  have "s = take 3 s @ drop 3 s" by simp
  with t have "s = CHR 0xE2 # CHR 0x80 # b # drop 3 s" by simp
  then obtain r where s: "s = CHR 0xE2 # CHR 0x80 # b # r" by blast
  with \<open>in_range 0x80 0xBF b\<close> show ?thesis by (simp add: in_range_def byte_def)
qed

lemma decode_encode_string_body:
  "valid_utf8 s \<Longrightarrow> decode_string_body (encode_string_body s @ CHR 0x22 # rest) = Some (s, rest)"
proof (induction s rule: encode_string_body.induct)
  case 1
  then show ?case by simp
next
  case (2 c cs)
  show ?case
  proof (cases "byte c < 0x80")
    case True
    with "2.prems" have "valid_utf8 cs" by simp
    with True "2.IH"(1) show ?thesis by (simp add: decode_escape_ascii)
  next
    case False
    let ?n = "utf8_seq_len (c # cs)"
    from "2.prems" False have n: "?n \<noteq> 0" and v: "valid_utf8 (drop ?n (c # cs))"
      by (simp_all add: Let_def split: if_splits)
    have high: "list_all (\<lambda>x. 0x80 \<le> byte x) (take ?n (c # cs))"
      using utf8_seq_len_high [OF n] by (simp add: list_all_iff)
    show ?thesis
    proof (cases "take 3 (c # cs) = [CHR 0xE2, CHR 0x80, CHR 0xA8]")
      case True
      then have "?n = 3" by (rule utf8_seq_len_separator) (simp add: in_range_def byte_def)
      have eq: "[CHR 0xE2, CHR 0x80, CHR 0xA8] @ drop 3 (c # cs) = c # cs"
        by (metis True append_take_drop_id)
      from \<open>?n = 3\<close> True v "2.IH"(3) [OF False refl n True] False n eq show ?thesis
        by (simp add: Let_def decode_line_separators del: decode_string_body.simps)
    next
      case s1: False
      show ?thesis
      proof (cases "take 3 (c # cs) = [CHR 0xE2, CHR 0x80, CHR 0xA9]")
        case True
        then have "?n = 3" by (rule utf8_seq_len_separator) (simp add: in_range_def byte_def)
        have eq: "[CHR 0xE2, CHR 0x80, CHR 0xA9] @ drop 3 (c # cs) = c # cs"
          by (metis True append_take_drop_id)
        from \<open>?n = 3\<close> True s1 v "2.IH"(4) [OF False refl n s1 True] False n eq show ?thesis
          by (simp add: Let_def decode_line_separators del: decode_string_body.simps)
      next
        case s2: False
        have e: "encode_string_body (c # cs) = take ?n (c # cs) @ encode_string_body (drop ?n (c # cs))"
          by (simp only: encode_string_body.simps(2) [of c cs] Let_def False n s1 s2 if_False)
        have eq: "take ?n (c # cs) @ drop ?n (c # cs) = c # cs" by (rule append_take_drop_id)
        from "2.IH"(5) [OF False refl n s1 s2 v] high show ?thesis
          unfolding e by (simp only: append_assoc decode_high_prefix option.map apfst_conv eq)
      qed
    qed
  qed
qed

subsection \<open>Reading values back\<close>

lemma json_text_first:
  "\<exists>c t. json_text v = c # t \<and> c \<noteq> CHR '']'' \<and> c \<noteq> CHR ''}'' \<and> c \<noteq> CHR '',''"
  by (cases v) (simp_all add: json_string_def)

lemma comma_join_Cons:
  "comma_join (x # xs) = x @ (if xs = [] then [] else CHR '','' # comma_join xs)"
  by (cases xs) simp_all

lemma parse_value_text:
  "json_strings_valid v \<Longrightarrow> json_fuel v < n \<Longrightarrow> parse_value n (json_text v @ rest) = Some (v, rest)"
proof (induction v arbitrary: n rest)
  case JNull
  then obtain m where "n = Suc m" by (cases n) auto
  then show ?case by simp
next
  case (JString s)
  then obtain m where "n = Suc m" by (cases n) auto
  with JString show ?case by (simp add: json_string_def decode_encode_string_body)
next
  case (JArray vs)
  then obtain m where n: "n = Suc m" by (cases n) auto
  have elems: "parse_elements k (comma_join (map json_text ws) @ CHR '']'' # rest) = Some (ws, rest)"
    if "ws \<noteq> []" "set ws \<subseteq> set vs" "list_all json_strings_valid ws"
       "sum_list (map (\<lambda>v. Suc (json_fuel v)) ws) < k" for ws k
    using that
  proof (induction ws arbitrary: k)
    case Nil
    then show ?case by simp
  next
    case (Cons w ws)
    then obtain k' where k: "k = Suc k'" by (cases k) auto
    show ?case
    proof (cases ws)
      case Nil
      with Cons k JArray.IH [of w k' "CHR '']'' # rest"] show ?thesis by simp
    next
      case (Cons w' ws')
      with Cons.prems k have "parse_elements k' (comma_join (map json_text ws) @ CHR '']'' # rest)
          = Some (ws, rest)" by (intro Cons.IH) auto
      with Cons Cons.prems k JArray.IH [of w k' "CHR '','' # comma_join (map json_text ws) @ CHR '']'' # rest"]
      show ?thesis by simp
    qed
  qed
  show ?case
  proof (cases vs)
    case Nil
    with n show ?thesis by simp
  next
    case (Cons w ws)
    with JArray.prems n have "parse_elements m (comma_join (map json_text vs) @ CHR '']'' # rest) = Some (vs, rest)"
      by (intro elems) auto
    moreover obtain c t where "json_text w = c # t" "c \<noteq> CHR '']''"
      using json_text_first [of w] by blast
    ultimately show ?thesis using Cons n by (simp add: comma_join_Cons)
  qed
next
  case (JObject ms)
  then obtain m where n: "n = Suc m" by (cases n) auto
  let ?member = "\<lambda>(k, v). json_string k @ CHR '':'' # json_text v"
  have members: "parse_members k (comma_join (map ?member ws) @ CHR ''}'' # rest) = Some (ws, rest)"
    if "ws \<noteq> []" "set ws \<subseteq> set ms" "list_all (\<lambda>(k, v). valid_utf8 k \<and> json_strings_valid v) ws"
       "sum_list (map (\<lambda>(k, v). Suc (json_fuel v)) ws) < k" for ws k
    using that
  proof (induction ws arbitrary: k)
    case Nil
    then show ?case by simp
  next
    case (Cons w ws)
    obtain a b where w: "w = (a, b)" by fastforce
    from Cons obtain k' where k: "k = Suc k'" by (cases k) auto
    show ?case
    proof (cases ws)
      case Nil
      with Cons w k JObject.IH [of "(a, b)" b k' "CHR ''}'' # rest"] show ?thesis
        by (simp add: json_string_def decode_encode_string_body)
    next
      case (Cons w' ws')
      with Cons.prems k w have "parse_members k' (comma_join (map ?member ws) @ CHR ''}'' # rest)
          = Some (ws, rest)" by (intro Cons.IH) auto
      with Cons Cons.prems k w JObject.IH [of "(a, b)" b k' "CHR '','' # comma_join (map ?member ws) @ CHR ''}'' # rest"]
      show ?thesis by (simp add: json_string_def decode_encode_string_body)
    qed
  qed
  show ?case
  proof (cases ms)
    case Nil
    with n show ?thesis by simp
  next
    case (Cons w ws)
    with JObject.prems n have "parse_members m (comma_join (map ?member ms) @ CHR ''}'' # rest) = Some (ms, rest)"
      by (intro members) auto
    moreover obtain a b where "w = (a, b)" by fastforce
    ultimately show ?thesis using Cons n by (simp add: json_string_def comma_join_Cons)
  qed
qed

lemma length_comma_join:
  "length (comma_join xs) + 1 \<ge> sum_list (map length xs) + length xs"
  by (induction xs rule: comma_join.induct) auto

lemma json_fuel_le_length: "json_fuel v \<le> length (json_text v)"
proof (induction v)
  case (JArray vs)
  have "sum_list (map (\<lambda>v. Suc (json_fuel v)) vs) \<le> sum_list (map (\<lambda>v. Suc (length (json_text v))) vs)"
    using JArray.IH by (intro sum_list_mono) auto
  also have "\<dots> = sum_list (map length (map json_text vs)) + length vs"
    by (induction vs) auto
  also have "\<dots> \<le> length (comma_join (map json_text vs)) + 1"
    using length_comma_join [of "map json_text vs"] by simp
  finally show ?case by simp
next
  case (JObject ms)
  let ?member = "\<lambda>(k, v). json_string k @ CHR '':'' # json_text v"
  have "sum_list (map (\<lambda>(k, v). Suc (json_fuel v)) ms) \<le> sum_list (map (\<lambda>m. length (?member m)) ms)"
  proof (intro sum_list_mono)
    fix m assume "m \<in> set ms"
    moreover obtain a b where "m = (a, b)" by fastforce
    ultimately have "json_fuel b \<le> length (json_text b)" using JObject.IH by auto
    with \<open>m = (a, b)\<close> show "(\<lambda>(k, v). Suc (json_fuel v)) m \<le> length (?member m)"
      by (simp add: json_string_def)
  qed
  also have "\<dots> \<le> sum_list (map length (map ?member ms)) + length ms"
    by (simp add: comp_def)
  also have "\<dots> \<le> length (comma_join (map ?member ms)) + 1"
    using length_comma_join [of "map ?member ms"] by simp
  finally show ?case by simp
qed simp_all

lemma read_json_text: "json_strings_valid v \<Longrightarrow> read_json (json_text v) = Some v"
  using parse_value_text [of v "Suc (length (json_text v))" "[]"] json_fuel_le_length [of v]
  by (simp add: read_json_def)

subsection \<open>Decoding the affinity\<close>

lemma those_map_inverse:
  "(\<And>x. x \<in> set xs \<Longrightarrow> f (g x) = Some x) \<Longrightarrow> those (map f (map g xs)) = Some xs"
  by (induction xs) auto

lemma requirement_round_trip: "requirement_of_json (requirement_json r) = Some r"
proof -
  have "those (map string_of_json (map JString (Values r))) = Some (Values r)"
    by (rule those_map_inverse) simp
  then show ?thesis
    by (cases r) (simp add: requirement_json_def string_member_def list_member_def)
qed

lemma term_round_trip: "term_of_json (term_json t) = Some t"
proof -
  have "those (map requirement_of_json (map requirement_json rs)) = Some rs" for rs
    by (rule those_map_inverse) (simp add: requirement_round_trip)
  then show ?thesis
    by (cases t) (simp add: term_json_def list_member_def)
qed

lemma affinity_round_trip: "affinity_of_json (affinity_json a) = Some a"
proof -
  have "those (map term_of_json (map term_json ts)) = Some ts" for ts
    by (rule those_map_inverse) (simp add: term_round_trip)
  then have sel: "selector_of_json (selector_json s) = Some s" for s
    by (cases s) (simp add: selector_json_def split: option.split)
  show ?thesis
  proof (cases "Required a")
    case None
    then show ?thesis by (cases a) (simp add: affinity_json_def)
  next
    case (Some s)
    obtain ms where ms: "selector_json s = JObject ms" by (simp add: selector_json_def)
    from sel [of s] Some ms show ?thesis by (cases a) (simp add: affinity_json_def)
  qed
qed

lemma valid_utf8_ascii: "list_all (\<lambda>c. byte c < 0x80) s \<Longrightarrow> valid_utf8 s"
  by (induction s) simp_all

subsection \<open>The strings of the affinity\<close>

lemma member_keys_valid:
  "valid_utf8 ''key''" "valid_utf8 ''operator''" "valid_utf8 ''values''"
  "valid_utf8 ''matchExpressions''" "valid_utf8 ''matchFields''"
  "valid_utf8 ''nodeSelectorTerms''" "valid_utf8 ''required''"
  by (simp_all add: byte_def)

lemma requirement_json_valid:
  "list_all valid_utf8 (requirement_strings r) \<Longrightarrow> json_strings_valid (requirement_json r)"
  by (simp add: requirement_json_def requirement_strings_def list_all_iff member_keys_valid
      del: valid_utf8.simps)

lemma term_json_valid:
  "list_all valid_utf8 (concat (map requirement_strings (MatchExpressions t @ MatchFields t))) \<Longrightarrow>
     json_strings_valid (term_json t)"
  by (auto simp: term_json_def list_all_iff member_keys_valid intro!: requirement_json_valid
      simp del: valid_utf8.simps) blast+

lemma affinity_json_strings_valid:
  assumes "list_all valid_utf8 (affinity_strings a)"
  shows "json_strings_valid (affinity_json a)"
proof (cases "Required a")
  case None
  then show ?thesis by (simp add: affinity_json_def)
next
  case (Some s)
  show ?thesis
  proof (cases "NodeSelectorTerms s")
    case None
    with Some show ?thesis
      by (simp add: affinity_json_def selector_json_def member_keys_valid del: valid_utf8.simps)
  next
    case (Some ts)
    with \<open>Required a = Some s\<close> assms
    have "\<forall>t \<in> set ts. list_all valid_utf8 (concat (map requirement_strings (MatchExpressions t @ MatchFields t)))"
      by (simp add: affinity_strings_def list_all_iff)
    with Some \<open>Required a = Some s\<close> show ?thesis
      by (simp add: affinity_json_def selector_json_def member_keys_valid list_all_iff term_json_valid
          del: valid_utf8.simps)
  qed
qed

text \<open>The marshalled text of an affinity whose strings are valid UTF-8 reads back
  to the affinity.\<close>

lemma read_affinity_json_Marshal:
  "list_all valid_utf8 (affinity_strings a) \<Longrightarrow> read_affinity (json_Marshal a) = Some a"
  by (simp add: read_affinity_def json_Marshal_def read_json_text affinity_json_strings_valid
      affinity_round_trip)


subsection \<open>The text is valid UTF-8\<close>

text \<open>The encoder passes only accepted sequences through and writes everything else
  as ASCII escapes, so its output is valid UTF-8 whatever bytes it is given.\<close>

lemma utf8_seq_len_prefix:
  assumes "utf8_seq_len s \<noteq> 0"
  shows "utf8_seq_len s \<le> length s \<and> utf8_seq_len (take (utf8_seq_len s) s @ y) = utf8_seq_len s"
proof -
  obtain c0 c1 rest where s: "s = c0 # c1 # rest"
    using assms by (cases s rule: utf8_seq_len.cases) auto
  show ?thesis
  proof (cases "in_range 0xC2 0xDF c0 \<and> in_range 0x80 0xBF c1")
    case True
    then show ?thesis by (simp add: s)
  next
    case c2: False
    then obtain c2 rest' where r: "rest = c2 # rest'"
      using assms by (cases rest) (auto simp: s)
    show ?thesis
    proof (cases "((byte c0 = 0xE0 \<and> in_range 0xA0 0xBF c1)
              \<or> ((in_range 0xE1 0xEC c0 \<or> in_range 0xEE 0xEF c0) \<and> in_range 0x80 0xBF c1)
              \<or> (byte c0 = 0xED \<and> in_range 0x80 0x9F c1)) \<and> in_range 0x80 0xBF c2")
      case True
      with c2 show ?thesis by (simp add: s r)
    next
      case c3: False
      then obtain c3 rest'' where r': "rest' = c3 # rest''"
        using assms c2 by (cases rest') (auto simp: s r)
      have "utf8_seq_len s = 4"
        using assms c2 c3 by (simp add: s r r' split: if_splits)
      with c2 c3 show ?thesis by (simp add: s r r' split: if_splits)
    qed
  qed
qed

lemma valid_utf8_append: "valid_utf8 x \<Longrightarrow> valid_utf8 y \<Longrightarrow> valid_utf8 (x @ y)"
proof (induction x rule: valid_utf8.induct)
  case 1
  then show ?case by simp
next
  case (2 c cs)
  show ?case
  proof (cases "byte c < 0x80")
    case True
    with 2 show ?thesis by simp
  next
    case False
    let ?n = "utf8_seq_len (c # cs)"
    from "2.prems" False have n: "?n \<noteq> 0" and v: "valid_utf8 (drop ?n (c # cs))"
      by (simp_all add: Let_def split: if_splits)
    from utf8_seq_len_prefix [OF n, of "drop ?n (c # cs) @ y"]
    have len: "?n \<le> Suc (length cs)" and eq: "utf8_seq_len (c # cs @ y) = ?n"
      by (simp_all flip: append_assoc)
    have "drop ?n ((c # cs) @ y) = drop ?n (c # cs) @ y"
      using len by (simp add: drop_append del: append_Cons)
    then have "drop ?n (c # cs @ y) = drop ?n (c # cs) @ y" by simp
    moreover have "valid_utf8 (c # cs @ y) \<longleftrightarrow> valid_utf8 (drop ?n (c # cs @ y))"
      by (simp only: valid_utf8.simps(2) Let_def eq False n if_False)
    ultimately show ?thesis using "2.IH"(2) [OF False refl n v "2.prems"(2)] by simp
  qed
qed

lemma valid_utf8_one_seq:
  "utf8_seq_len p = length p \<Longrightarrow> p \<noteq> [] \<Longrightarrow> \<not> byte (hd p) < 0x80 \<Longrightarrow> valid_utf8 p"
  by (cases p) (simp_all add: Let_def)

lemma valid_utf8_take_seq:
  assumes n: "utf8_seq_len s \<noteq> 0"
  shows "valid_utf8 (take (utf8_seq_len s) s)"
proof (rule valid_utf8_one_seq)
  from utf8_seq_len_prefix [OF n, of "[]"]
  have len: "utf8_seq_len s \<le> length s"
    and eq: "utf8_seq_len (take (utf8_seq_len s) s) = utf8_seq_len s" by simp_all
  then show "utf8_seq_len (take (utf8_seq_len s) s) = length (take (utf8_seq_len s) s)" by simp
  show ne: "take (utf8_seq_len s) s \<noteq> []" using n len by (cases s) auto
  show "\<not> byte (hd (take (utf8_seq_len s) s)) < 0x80"
    using utf8_seq_len_high [OF n hd_in_set [OF ne]] by simp
qed

lemma hex_digit_ascii: "n < 16 \<Longrightarrow> byte (hex_digit n) < 0x80"
proof -
  assume "n < 16"
  then have "n < length ''0123456789abcdef''" by simp
  then have "hex_digit n \<in> set ''0123456789abcdef''" unfolding hex_digit_def by (rule nth_mem)
  moreover have "\<forall>c \<in> set ''0123456789abcdef''. byte c < 0x80" by (simp add: byte_def)
  ultimately show ?thesis by blast
qed

lemma escape_ascii_valid: "byte c < 0x80 \<Longrightarrow> valid_utf8 (escape_ascii c)"
  unfolding escape_ascii_def
  by (rule valid_utf8_ascii) (auto simp: hex_digit_ascii html_safe_def, simp_all add: byte_def)

lemma valid_utf8_encode_string_body: "valid_utf8 (encode_string_body s)"
proof (induction s rule: encode_string_body.induct)
  case 1
  then show ?case by simp
next
  case (2 c cs)
  show ?case
  proof (cases "byte c < 0x80")
    case True
    with "2.IH"(1) show ?thesis by (simp add: valid_utf8_append escape_ascii_valid)
  next
    case False
    let ?n = "utf8_seq_len (c # cs)"
    have lit: "valid_utf8 (CHR 0x5C # ''ufffd'')" "valid_utf8 (CHR 0x5C # ''u2028'')"
      "valid_utf8 (CHR 0x5C # ''u2029'')" by (simp_all add: byte_def)
    show ?thesis
    proof (cases "?n = 0")
      case True
      have e: "encode_string_body (c # cs) = (CHR 0x5C # ''ufffd'') @ encode_string_body cs"
        by (simp only: encode_string_body.simps(2) [of c cs] Let_def False True if_False if_True) simp
      show ?thesis unfolding e using "2.IH"(2) [OF False refl True] lit
        by (simp only: valid_utf8_append)
    next
      case n: False
      consider "take 3 (c # cs) = [CHR 0xE2, CHR 0x80, CHR 0xA8]"
        | "take 3 (c # cs) \<noteq> [CHR 0xE2, CHR 0x80, CHR 0xA8]" "take 3 (c # cs) = [CHR 0xE2, CHR 0x80, CHR 0xA9]"
        | "take 3 (c # cs) \<noteq> [CHR 0xE2, CHR 0x80, CHR 0xA8]" "take 3 (c # cs) \<noteq> [CHR 0xE2, CHR 0x80, CHR 0xA9]"
        by blast
      then show ?thesis
      proof cases
        case 1
        have e: "encode_string_body (c # cs) = (CHR 0x5C # ''u2028'') @ encode_string_body (drop 3 (c # cs))"
          by (simp only: encode_string_body.simps(2) [of c cs] Let_def False n 1 if_False if_True) simp
        show ?thesis unfolding e using "2.IH"(3) [OF False refl n 1] lit
          by (simp only: valid_utf8_append)
      next
        case 2
        have e: "encode_string_body (c # cs) = (CHR 0x5C # ''u2029'') @ encode_string_body (drop 3 (c # cs))"
          by (simp only: encode_string_body.simps(2) [of c cs] Let_def False n 2 if_False if_True) simp
        show ?thesis unfolding e using "2.IH"(4) [OF False refl n 2] lit
          by (simp only: valid_utf8_append)
      next
        case 3
        have e: "encode_string_body (c # cs) = take ?n (c # cs) @ encode_string_body (drop ?n (c # cs))"
          by (simp only: encode_string_body.simps(2) [of c cs] Let_def False n 3 if_False)
        show ?thesis unfolding e using "2.IH"(5) [OF False refl n 3] valid_utf8_take_seq [OF n]
          by (simp only: valid_utf8_append)
      qed
    qed
  qed
qed

lemma valid_utf8_comma_join: "list_all valid_utf8 xs \<Longrightarrow> valid_utf8 (comma_join xs)"
  by (induction xs rule: comma_join.induct) (simp_all add: valid_utf8_append byte_def)

lemma valid_utf8_json_text: "valid_utf8 (json_text v)"
proof (induction v)
  case JNull
  then show ?case by (simp add: byte_def)
next
  case (JString s)
  then show ?case by (simp add: json_string_def byte_def valid_utf8_encode_string_body valid_utf8_append)
next
  case (JArray vs)
  then have "list_all valid_utf8 (map json_text vs)" by (simp add: list_all_iff)
  then show ?case by (simp add: valid_utf8_comma_join valid_utf8_append byte_def)
next
  case (JObject ms)
  have "list_all valid_utf8 (map (\<lambda>(k, v). json_string k @ CHR '':'' # json_text v) ms)"
    using JObject.IH
    by (auto simp: list_all_iff json_string_def byte_def valid_utf8_encode_string_body valid_utf8_append)
  then show ?case by (simp add: valid_utf8_comma_join valid_utf8_append byte_def)
qed

end
