(* ===== verification/Tables.thy ===== *)
theory Tables
  imports Quantity JSONDecode
begin

text \<open>
  The two table adapters of \<open>src/tables\<close>: the osquery tables
  \<open>kubernetes_persistentvolumeclaims\<close> (\<open>persistentvolumeclaims.go\<close>) and
  \<open>kubernetes_persistentvolumes\<close> (\<open>persistentvolumes.go\<close>).  Each table is a
  record of its Go struct; \<open>Generate\<close> calls the Kubernetes lister once and projects
  every listed object into a row.  The lister is the interface to the cluster: a
  function of the table's client, returning the listed objects or the client's
  error.  \<open>log.Println\<close> is modelled as the list of lines \<open>Generate\<close> logs, and a
  Go runtime panic (an index out of range in \<open>rows[i] = currRow\<close>) as \<open>None\<close>.
\<close>

subsection \<open>Column definitions (osquery-go \<open>table.ColumnDefinition\<close>)\<close>

record ColumnDefinition =
  col_name :: string
  col_type :: string

definition TextColumn :: "string \<Rightarrow> ColumnDefinition" where
  "TextColumn name = \<lparr>col_name = name, col_type = ''TEXT''\<rparr>"

subsection \<open>The objects the adapters read\<close>

text \<open>The fields of \<open>corev1.PersistentVolumeClaim\<close> that \<open>Generate\<close> reads, with
  Go's pointers as options and the \<open>ResourceList\<close> maps as partial maps.\<close>

record PersistentVolumeClaim =
  pvc_meta_name :: string
  pvc_status_phase :: string
  pvc_spec_volumeName :: string
  pvc_spec_volumeMode :: "string option"
  pvc_spec_storageClassName :: "string option"
  pvc_status_capacity :: "string \<rightharpoonup> Quantity"
  pvc_spec_requests :: "string \<rightharpoonup> Quantity"

text \<open>The fields of \<open>corev1.PersistentVolume\<close> that \<open>Generate\<close> reads;
  \<open>Spec.Local\<close> is nil or a \<open>LocalVolumeSource\<close>, of which only \<open>Path\<close> is read.\<close>

record PersistentVolume =
  pv_meta_name :: string
  pv_status_phase :: string
  pv_spec_storageClassName :: string
  pv_spec_capacity :: "string \<rightharpoonup> Quantity"
  pv_spec_local :: "string option"
  pv_spec_nodeAffinity :: "VolumeNodeAffinity option"

subsection \<open>Building a row\<close>

text \<open>\<open>if p != nil { currRow[col] = string( *p) }\<close>\<close>

definition set_opt :: "string \<Rightarrow> string option \<Rightarrow> row \<Rightarrow> row" where
  "set_opt col v currRow = (case v of None \<Rightarrow> currRow | Some s \<Rightarrow> currRow(col \<mapsto> s))"

text \<open>\<open>if _, ok := m["storage"]; ok { quantity := m["storage"];
  currRow[col] = (&quantity).String() }\<close>\<close>

definition set_storage :: "string \<Rightarrow> (string \<rightharpoonup> Quantity) \<Rightarrow> row \<Rightarrow> row" where
  "set_storage col resources currRow =
     (case resources ''storage'' of
        None \<Rightarrow> currRow
      | Some quantity \<Rightarrow> currRow(col \<mapsto> quantity_String quantity))"

subsection \<open>The row loop\<close>

text \<open>Go's slice assignment \<open>rows[i] = v\<close>, which panics out of range.\<close>

definition slice_set :: "'a list \<Rightarrow> nat \<Rightarrow> 'a \<Rightarrow> 'a list option" where
  "slice_set xs i x = (if i < length xs then Some (xs[i := x]) else None)"

text \<open>\<open>for i, item := range items { currRow := ...; rows[i] = currRow }\<close>\<close>

fun fill_rows :: "('a \<Rightarrow> row) \<Rightarrow> nat \<Rightarrow> 'a list \<Rightarrow> row list \<Rightarrow> row list option" where
  "fill_rows f i [] rows = Some rows"
| "fill_rows f i (x # xs) rows =
     (case slice_set rows i (f x) of None \<Rightarrow> None | Some rows' \<Rightarrow> fill_rows f (Suc i) xs rows')"

text \<open>\<open>rows := make([]map[string]string, len(items))\<close>, then the loop; the slots
  start as nil maps, which read as empty.\<close>

definition generate_rows :: "('a \<Rightarrow> row) \<Rightarrow> 'a list \<Rightarrow> row list option" where
  "generate_rows f items = fill_rows f 0 items (replicate (length items) Map.empty)"

subsection \<open>The claims table\<close>

record ('c, 'm) PersistentVolumeClaimsTable =
  pvct_columns :: "ColumnDefinition list"
  pvct_name :: string
  pvct_client :: 'c
  pvct_metricsClient :: "'m option"

definition pvc_columns :: "ColumnDefinition list" where
  "pvc_columns =
     [TextColumn ''name'', TextColumn ''status'', TextColumn ''storageclass_name'',
      TextColumn ''capacity'', TextColumn ''requested'', TextColumn ''volumename'',
      TextColumn ''volumemode'']"

definition NewPersistentVolumeClaimsTable :: "'c \<Rightarrow> ('c, 'm) PersistentVolumeClaimsTable" where
  "NewPersistentVolumeClaimsTable kubeclient =
     \<lparr>pvct_columns = pvc_columns, pvct_name = ''kubernetes_persistentvolumeclaims'',
      pvct_client = kubeclient, pvct_metricsClient = None\<rparr>"

definition pvc_Name :: "('c, 'm) PersistentVolumeClaimsTable \<Rightarrow> string" where
  "pvc_Name t = pvct_name t"

definition pvc_Columns :: "('c, 'm) PersistentVolumeClaimsTable \<Rightarrow> ColumnDefinition list" where
  "pvc_Columns t = pvct_columns t"

definition pvc_row :: "PersistentVolumeClaim \<Rightarrow> row" where
  "pvc_row pvc =
     (let currRow = [''name'' \<mapsto> pvc_meta_name pvc, ''status'' \<mapsto> pvc_status_phase pvc,
                     ''volumename'' \<mapsto> pvc_spec_volumeName pvc];
          currRow = set_opt ''volumemode'' (pvc_spec_volumeMode pvc) currRow;
          currRow = set_opt ''storageclass_name'' (pvc_spec_storageClassName pvc) currRow;
          currRow = set_storage ''capacity'' (pvc_status_capacity pvc) currRow
      in set_storage ''requested'' (pvc_spec_requests pvc) currRow)"

text \<open>The claims are listed across all namespaces: \<open>metav1.NamespaceAll\<close> is the
  empty string.\<close>

definition pvc_Generate ::
  "('c \<Rightarrow> string \<Rightarrow> 'e + PersistentVolumeClaim list) \<Rightarrow> ('c, 'm) PersistentVolumeClaimsTable
     \<Rightarrow> 'ctx \<Rightarrow> 'qc \<Rightarrow> (string list \<times> ('e + row list)) option" where
  "pvc_Generate list_pvcs t ctx queryContext =
     (case list_pvcs (pvct_client t) '''' of
        Inl err \<Rightarrow> Some ([''could not list pvcs from k8s api''], Inl err)
      | Inr pvcs \<Rightarrow> map_option (\<lambda>rows. ([], Inr rows)) (generate_rows pvc_row pvcs))"

subsection \<open>The volumes table\<close>

record ('c, 'm) PersistentVolumesTable =
  pvt_columns :: "ColumnDefinition list"
  pvt_name :: string
  pvt_client :: 'c
  pvt_metricsClient :: "'m option"

definition pv_columns :: "ColumnDefinition list" where
  "pv_columns =
     [TextColumn ''name'', TextColumn ''status'', TextColumn ''capacity'',
      TextColumn ''path'', TextColumn ''storageclass_name'', TextColumn ''nodeaffinity'']"

definition NewPersistentVolumesTable :: "'c \<Rightarrow> ('c, 'm) PersistentVolumesTable" where
  "NewPersistentVolumesTable kubeclient =
     \<lparr>pvt_columns = pv_columns, pvt_name = ''kubernetes_persistentvolumes'',
      pvt_client = kubeclient, pvt_metricsClient = None\<rparr>"

definition pv_Name :: "('c, 'm) PersistentVolumesTable \<Rightarrow> string" where
  "pv_Name t = pvt_name t"

definition pv_Columns :: "('c, 'm) PersistentVolumesTable \<Rightarrow> ColumnDefinition list" where
  "pv_Columns t = pvt_columns t"

text \<open>\<open>json.Marshal\<close> cannot fail on \<open>VolumeNodeAffinity\<close> (strings, slices and
  pointers only), so the \<open>err == nil\<close> test always passes and the result is the
  marshalled text; the receiver is not used.\<close>

definition getNodeAffinity :: "('c, 'm) PersistentVolumesTable \<Rightarrow> VolumeNodeAffinity \<Rightarrow> string" where
  "getNodeAffinity t nodeaffinity = json_Marshal nodeaffinity"

definition pv_row :: "('c, 'm) PersistentVolumesTable \<Rightarrow> PersistentVolume \<Rightarrow> row" where
  "pv_row t pv =
     (let currRow = [''name'' \<mapsto> pv_meta_name pv, ''status'' \<mapsto> pv_status_phase pv,
                     ''storageclass_name'' \<mapsto> pv_spec_storageClassName pv];
          currRow = set_storage ''capacity'' (pv_spec_capacity pv) currRow;
          currRow = set_opt ''path'' (pv_spec_local pv) currRow
      in set_opt ''nodeaffinity'' (map_option (getNodeAffinity t) (pv_spec_nodeAffinity pv)) currRow)"

text \<open>Persistent volumes are cluster-scoped: the lister takes no namespace.\<close>

definition pv_Generate ::
  "('c \<Rightarrow> 'e + PersistentVolume list) \<Rightarrow> ('c, 'm) PersistentVolumesTable
     \<Rightarrow> 'ctx \<Rightarrow> 'qc \<Rightarrow> (string list \<times> ('e + row list)) option" where
  "pv_Generate list_pvs t ctx queryContext =
     (case list_pvs (pvt_client t) of
        Inl err \<Rightarrow> Some ([''could not list pvs from k8s api''], Inl err)
      | Inr pvs \<Rightarrow> map_option (\<lambda>rows. ([], Inr rows)) (generate_rows (pv_row t) pvs))"

subsection \<open>Row lemmas\<close>

lemma set_opt_apply [row_simps]:
  "set_opt col v currRow k = (if k = col \<and> v \<noteq> None then v else currRow k)"
  by (simp add: set_opt_def split: option.split)

lemma set_storage_apply [row_simps]:
  "set_storage col resources currRow k =
     (if k = col \<and> resources ''storage'' \<noteq> None
      then map_option quantity_String (resources ''storage'') else currRow k)"
  by (simp add: set_storage_def split: option.split)

lemma dom_set_opt [row_simps]:
  "dom (set_opt col v currRow) = dom currRow \<union> (if v = None then {} else {col})"
  by (auto simp: set_opt_def split: option.splits)

lemma dom_set_storage [row_simps]:
  "dom (set_storage col resources currRow) =
     dom currRow \<union> (if resources ''storage'' = None then {} else {col})"
  by (auto simp: set_storage_def split: option.splits)

lemma getNodeAffinity_eq [row_simps]: "getNodeAffinity t = json_Marshal"
  by (rule ext) (simp add: getNodeAffinity_def)

lemma client_of_new_tables [row_simps]:
  "pvct_client (NewPersistentVolumeClaimsTable c) = c"
  "pvt_client (NewPersistentVolumesTable c) = c"
  by (simp_all add: NewPersistentVolumeClaimsTable_def NewPersistentVolumesTable_def)

lemma take_Suc_list_update:
  "i < length xs \<Longrightarrow> take (Suc i) (xs[i := x]) = take i xs @ [x]"
  by (simp add: take_Suc_conv_app_nth)

text \<open>The loop writes slot \<open>i\<close> of a slice that still has \<open>length xs\<close> slots
  after it: it never indexes out of range, and it leaves the rows in list order.\<close>

lemma fill_rows_take_map:
  "i + length xs = length rows \<Longrightarrow> fill_rows f i xs rows = Some (take i rows @ map f xs)"
proof (induction xs arbitrary: i rows)
  case Nil
  then show ?case by simp
next
  case (Cons x xs)
  then have i: "i < length rows" by simp
  then have set: "slice_set rows i (f x) = Some (rows[i := f x])"
    by (simp add: slice_set_def)
  from Cons.prems have "Suc i + length xs = length (rows[i := f x])" by simp
  then have "fill_rows f (Suc i) xs (rows[i := f x]) = Some (take (Suc i) (rows[i := f x]) @ map f xs)"
    by (rule Cons.IH)
  with i set show ?case by (simp add: take_Suc_list_update)
qed

lemma generate_rows_Some [row_simps]: "generate_rows f items = Some (map f items)"
  by (simp add: generate_rows_def fill_rows_take_map)

lemma pvc_columns_names [row_simps]:
  "col_name ` set pvc_columns =
     {''name'', ''status'', ''storageclass_name'', ''capacity'', ''requested'', ''volumename'', ''volumemode''}"
  by (simp add: pvc_columns_def TextColumn_def)

lemma pv_columns_names [row_simps]:
  "col_name ` set pv_columns =
     {''name'', ''status'', ''capacity'', ''path'', ''storageclass_name'', ''nodeaffinity''}"
  by (simp add: pv_columns_def TextColumn_def)

lemma dom_pvc_row [row_simps]:
  "dom (pvc_row pvc) =
     {''name'', ''status'', ''volumename''}
     \<union> (if pvc_spec_volumeMode pvc = None then {} else {''volumemode''})
     \<union> (if pvc_spec_storageClassName pvc = None then {} else {''storageclass_name''})
     \<union> (if pvc_status_capacity pvc ''storage'' = None then {} else {''capacity''})
     \<union> (if pvc_spec_requests pvc ''storage'' = None then {} else {''requested''})"
  by (simp add: pvc_row_def Let_def row_simps insert_commute)

lemma dom_pv_row [row_simps]:
  "dom (pv_row t pv) =
     {''name'', ''status'', ''storageclass_name''}
     \<union> (if pv_spec_capacity pv ''storage'' = None then {} else {''capacity''})
     \<union> (if pv_spec_local pv = None then {} else {''path''})
     \<union> (if pv_spec_nodeAffinity pv = None then {} else {''nodeaffinity''})"
  by (simp add: pv_row_def Let_def row_simps insert_commute)

lemma pv_Generate_rows_dom:
  assumes "pv_Generate list_pvs t ctx queryContext = Some (logged, Inr rows)"
    and "r \<in> set rows"
  shows "dom r \<subseteq> col_name ` set pv_columns"
proof (cases "list_pvs (pvt_client t)")
  case (Inl err)
  with assms(1) show ?thesis by (simp add: pv_Generate_def)
next
  case (Inr pvs)
  with assms obtain pv where "r = pv_row t pv"
    by (auto simp: pv_Generate_def row_simps)
  then show ?thesis by (auto simp: row_simps split: if_splits)
qed

subsection \<open>Generate\<close>

text \<open>C1: When the lister returns the claims, \<open>Generate\<close> of the claims table does
  not panic, logs nothing and returns exactly one row per listed claim, in the
  lister's order, whatever the query context says (full scan: no filtering, no
  deduplication).\<close>

theorem pvc_Generate_listed:
  assumes "list_pvcs (pvct_client t) '''' = Inr pvcs"
  shows "pvc_Generate list_pvcs t ctx queryContext = Some ([], Inr (map pvc_row pvcs))"
  using assms by (simp add: pvc_Generate_def row_simps)

theorem pvc_Generate_listed_witness:
  "(\<lambda>(c::unit) (ns::string). Inr [\<lparr>pvc_meta_name = ''c1'', pvc_status_phase = ''Pending'',
        pvc_spec_volumeName = '''', pvc_spec_volumeMode = None, pvc_spec_storageClassName = None,
        pvc_status_capacity = Map.empty, pvc_spec_requests = Map.empty\<rparr>] :: string + PersistentVolumeClaim list)
     (pvct_client (NewPersistentVolumeClaimsTable () :: (unit, unit) PersistentVolumeClaimsTable)) ''''
   = Inr [\<lparr>pvc_meta_name = ''c1'', pvc_status_phase = ''Pending'',
        pvc_spec_volumeName = '''', pvc_spec_volumeMode = None, pvc_spec_storageClassName = None,
        pvc_status_capacity = Map.empty, pvc_spec_requests = Map.empty\<rparr>]
   \<and> pvc_Generate
       (\<lambda>(c::unit) (ns::string). Inr [\<lparr>pvc_meta_name = ''c1'', pvc_status_phase = ''Pending'',
        pvc_spec_volumeName = '''', pvc_spec_volumeMode = None, pvc_spec_storageClassName = None,
        pvc_status_capacity = Map.empty, pvc_spec_requests = Map.empty\<rparr>] :: string + PersistentVolumeClaim list)
       (NewPersistentVolumeClaimsTable () :: (unit, unit) PersistentVolumeClaimsTable) () ()
     = Some ([], Inr [[''name'' \<mapsto> ''c1'', ''status'' \<mapsto> ''Pending'', ''volumename'' \<mapsto> '''']])"
  using pvc_Generate_listed [of "\<lambda>(c::unit) (ns::string). Inr [\<lparr>pvc_meta_name = ''c1'', pvc_status_phase = ''Pending'',
        pvc_spec_volumeName = '''', pvc_spec_volumeMode = None, pvc_spec_storageClassName = None,
        pvc_status_capacity = Map.empty, pvc_spec_requests = Map.empty\<rparr>] :: string + PersistentVolumeClaim list"
      "NewPersistentVolumeClaimsTable () :: (unit, unit) PersistentVolumeClaimsTable"
      "[\<lparr>pvc_meta_name = ''c1'', pvc_status_phase = ''Pending'',
        pvc_spec_volumeName = '''', pvc_spec_volumeMode = None, pvc_spec_storageClassName = None,
        pvc_status_capacity = Map.empty, pvc_spec_requests = Map.empty\<rparr>]" "()" "()"]
  by (simp add: NewPersistentVolumeClaimsTable_def pvc_row_def set_opt_def set_storage_def)

text \<open>C2: When the lister fails, \<open>Generate\<close> of the claims table logs one diagnostic
  line and returns the lister's error unchanged, with no rows at all (fail-fast, no
  partial result).\<close>

theorem pvc_Generate_list_error:
  assumes "list_pvcs (pvct_client t) '''' = Inl err"
  shows "pvc_Generate list_pvcs t ctx queryContext =
           Some ([''could not list pvcs from k8s api''], Inl err)"
  using assms by (simp add: pvc_Generate_def)

theorem pvc_Generate_list_error_witness:
  "(\<lambda>(c::unit) (ns::string). Inl ''connection refused'' :: string + PersistentVolumeClaim list)
     (pvct_client (NewPersistentVolumeClaimsTable () :: (unit, unit) PersistentVolumeClaimsTable)) ''''
     = Inl ''connection refused''
   \<and> pvc_Generate (\<lambda>(c::unit) (ns::string). Inl ''connection refused'' :: string + PersistentVolumeClaim list)
       (NewPersistentVolumeClaimsTable () :: (unit, unit) PersistentVolumeClaimsTable) () ()
     = Some ([''could not list pvcs from k8s api''], Inl ''connection refused'')"
  using pvc_Generate_list_error [of "\<lambda>(c::unit) (ns::string). Inl ''connection refused'' :: string + PersistentVolumeClaim list"
      "NewPersistentVolumeClaimsTable () :: (unit, unit) PersistentVolumeClaimsTable" "''connection refused''" "()" "()"]
  by simp

text \<open>C3: When the lister returns the volumes, \<open>Generate\<close> of the volumes table
  does not panic, logs nothing and returns one row per listed volume, in order,
  whatever the query context says.\<close>

theorem pv_Generate_listed:
  assumes "list_pvs (pvt_client t) = Inr pvs"
  shows "pv_Generate list_pvs t ctx queryContext = Some ([], Inr (map (pv_row t) pvs))"
  using assms by (simp add: pv_Generate_def row_simps)

theorem pv_Generate_listed_witness:
  "(\<lambda>(c::unit). Inr [\<lparr>pv_meta_name = ''pv-1'', pv_status_phase = ''Available'',
        pv_spec_storageClassName = ''slow'', pv_spec_capacity = Map.empty,
        pv_spec_local = Some ''/mnt/disk1'', pv_spec_nodeAffinity = None\<rparr>] :: string + PersistentVolume list)
     (pvt_client (NewPersistentVolumesTable () :: (unit, unit) PersistentVolumesTable))
   = Inr [\<lparr>pv_meta_name = ''pv-1'', pv_status_phase = ''Available'',
        pv_spec_storageClassName = ''slow'', pv_spec_capacity = Map.empty,
        pv_spec_local = Some ''/mnt/disk1'', pv_spec_nodeAffinity = None\<rparr>]
   \<and> pv_Generate (\<lambda>(c::unit). Inr [\<lparr>pv_meta_name = ''pv-1'', pv_status_phase = ''Available'',
        pv_spec_storageClassName = ''slow'', pv_spec_capacity = Map.empty,
        pv_spec_local = Some ''/mnt/disk1'', pv_spec_nodeAffinity = None\<rparr>] :: string + PersistentVolume list)
       (NewPersistentVolumesTable () :: (unit, unit) PersistentVolumesTable) () ()
     = Some ([], Inr [[''name'' \<mapsto> ''pv-1'', ''status'' \<mapsto> ''Available'',
                       ''storageclass_name'' \<mapsto> ''slow'', ''path'' \<mapsto> ''/mnt/disk1'']])"
  using pv_Generate_listed [of "\<lambda>(c::unit). Inr [\<lparr>pv_meta_name = ''pv-1'', pv_status_phase = ''Available'',
        pv_spec_storageClassName = ''slow'', pv_spec_capacity = Map.empty,
        pv_spec_local = Some ''/mnt/disk1'', pv_spec_nodeAffinity = None\<rparr>] :: string + PersistentVolume list"
      "NewPersistentVolumesTable () :: (unit, unit) PersistentVolumesTable"
      "[\<lparr>pv_meta_name = ''pv-1'', pv_status_phase = ''Available'',
        pv_spec_storageClassName = ''slow'', pv_spec_capacity = Map.empty,
        pv_spec_local = Some ''/mnt/disk1'', pv_spec_nodeAffinity = None\<rparr>]" "()" "()"]
  by (simp add: NewPersistentVolumesTable_def pv_row_def set_opt_def set_storage_def)

text \<open>C4: When the lister fails, \<open>Generate\<close> of the volumes table logs one
  diagnostic line and returns the lister's error unchanged, with no rows.\<close>

theorem pv_Generate_list_error:
  assumes "list_pvs (pvt_client t) = Inl err"
  shows "pv_Generate list_pvs t ctx queryContext = Some ([''could not list pvs from k8s api''], Inl err)"
  using assms by (simp add: pv_Generate_def)

theorem pv_Generate_list_error_witness:
  "(\<lambda>(c::unit). Inl ''forbidden'' :: string + PersistentVolume list)
     (pvt_client (NewPersistentVolumesTable () :: (unit, unit) PersistentVolumesTable)) = Inl ''forbidden''
   \<and> pv_Generate (\<lambda>(c::unit). Inl ''forbidden'' :: string + PersistentVolume list)
       (NewPersistentVolumesTable () :: (unit, unit) PersistentVolumesTable) () ()
     = Some ([''could not list pvs from k8s api''], Inl ''forbidden'')"
  using pv_Generate_list_error [of "\<lambda>(c::unit). Inl ''forbidden'' :: string + PersistentVolume list"
      "NewPersistentVolumesTable () :: (unit, unit) PersistentVolumesTable" "''forbidden''" "()" "()"]
  by simp

subsection \<open>Rows\<close>

text \<open>C5: The row of a claim holds, column by column, exactly its source field:
  \<open>name\<close>, \<open>status\<close> and \<open>volumename\<close> always (\<open>volumename\<close> even when the
  claim is unbound and the field is empty); \<open>volumemode\<close> and
  \<open>storageclass_name\<close> only when the pointer is set; \<open>capacity\<close> and
  \<open>requested\<close> only when the resource list has a \<open>storage\<close> entry, rendered by
  \<open>Quantity.String\<close>.  An absent field leaves its key out of the row.\<close>

theorem pvc_row_columns:
  "pvc_row pvc ''name'' = Some (pvc_meta_name pvc)
   \<and> pvc_row pvc ''status'' = Some (pvc_status_phase pvc)
   \<and> pvc_row pvc ''volumename'' = Some (pvc_spec_volumeName pvc)
   \<and> pvc_row pvc ''volumemode'' = pvc_spec_volumeMode pvc
   \<and> pvc_row pvc ''storageclass_name'' = pvc_spec_storageClassName pvc
   \<and> pvc_row pvc ''capacity'' = map_option quantity_String (pvc_status_capacity pvc ''storage'')
   \<and> pvc_row pvc ''requested'' = map_option quantity_String (pvc_spec_requests pvc ''storage'')"
  by (simp add: pvc_row_def Let_def row_simps)

text \<open>C6: The row of a volume holds exactly its source field per column:
  \<open>name\<close>, \<open>status\<close> and \<open>storageclass_name\<close> always (the volume's storage
  class is a plain string, so an unset one is written as the empty string);
  \<open>capacity\<close> only with a \<open>storage\<close> entry; \<open>path\<close> only for a local volume;
  \<open>nodeaffinity\<close> only when the affinity is set, as its JSON text.\<close>

theorem pv_row_columns:
  "pv_row t pv ''name'' = Some (pv_meta_name pv)
   \<and> pv_row t pv ''status'' = Some (pv_status_phase pv)
   \<and> pv_row t pv ''storageclass_name'' = Some (pv_spec_storageClassName pv)
   \<and> pv_row t pv ''capacity'' = map_option quantity_String (pv_spec_capacity pv ''storage'')
   \<and> pv_row t pv ''path'' = pv_spec_local pv
   \<and> pv_row t pv ''nodeaffinity'' = map_option json_Marshal (pv_spec_nodeAffinity pv)"
  by (simp add: pv_row_def Let_def row_simps)

text \<open>C7: Every row that \<open>Generate\<close> of a claims table built by
  \<open>NewPersistentVolumeClaimsTable\<close> returns has keys only among the columns the table
  declares: no column is ever added from the data.\<close>

theorem pvc_Generate_rows_in_schema:
  assumes "pvc_Generate list_pvcs (NewPersistentVolumeClaimsTable c) ctx queryContext = Some (logged, Inr rows)"
    and "r \<in> set rows"
  shows "dom r \<subseteq> col_name ` set (pvc_Columns (NewPersistentVolumeClaimsTable c))"
proof (cases "list_pvcs c ''''")
  case (Inl err)
  with assms(1) show ?thesis by (simp add: pvc_Generate_def NewPersistentVolumeClaimsTable_def)
next
  case (Inr pvcs)
  with assms(1) have "rows = map pvc_row pvcs"
    by (simp add: pvc_Generate_def NewPersistentVolumeClaimsTable_def row_simps)
  with assms(2) obtain pvc where "r = pvc_row pvc" by auto
  then show ?thesis
    by (auto simp: pvc_Columns_def NewPersistentVolumeClaimsTable_def row_simps split: if_splits)
qed

theorem pvc_Generate_rows_in_schema_witness:
  "pvc_Generate (\<lambda>(c::unit) (ns::string). Inr [\<lparr>pvc_meta_name = ''c2'', pvc_status_phase = ''Bound'',
        pvc_spec_volumeName = ''pv-2'', pvc_spec_volumeMode = Some ''Filesystem'',
        pvc_spec_storageClassName = Some ''standard'',
        pvc_status_capacity = [''storage'' \<mapsto> \<lparr>amount_value = 1, amount_scale = 9, qformat = DecimalSI, cached_text = []\<rparr>],
        pvc_spec_requests = [''storage'' \<mapsto> \<lparr>amount_value = 1, amount_scale = 9, qformat = DecimalSI, cached_text = []\<rparr>]\<rparr>]
        :: string + PersistentVolumeClaim list)
     (NewPersistentVolumeClaimsTable () :: (unit, unit) PersistentVolumeClaimsTable) () ()
   = Some ([], Inr [pvc_row \<lparr>pvc_meta_name = ''c2'', pvc_status_phase = ''Bound'',
        pvc_spec_volumeName = ''pv-2'', pvc_spec_volumeMode = Some ''Filesystem'',
        pvc_spec_storageClassName = Some ''standard'',
        pvc_status_capacity = [''storage'' \<mapsto> \<lparr>amount_value = 1, amount_scale = 9, qformat = DecimalSI, cached_text = []\<rparr>],
        pvc_spec_requests = [''storage'' \<mapsto> \<lparr>amount_value = 1, amount_scale = 9, qformat = DecimalSI, cached_text = []\<rparr>]\<rparr>])
   \<and> dom (pvc_row \<lparr>pvc_meta_name = ''c2'', pvc_status_phase = ''Bound'',
        pvc_spec_volumeName = ''pv-2'', pvc_spec_volumeMode = Some ''Filesystem'',
        pvc_spec_storageClassName = Some ''standard'',
        pvc_status_capacity = [''storage'' \<mapsto> \<lparr>amount_value = 1, amount_scale = 9, qformat = DecimalSI, cached_text = []\<rparr>],
        pvc_spec_requests = [''storage'' \<mapsto> \<lparr>amount_value = 1, amount_scale = 9, qformat = DecimalSI, cached_text = []\<rparr>]\<rparr>)
     \<subseteq> col_name ` set (pvc_Columns (NewPersistentVolumeClaimsTable () :: (unit, unit) PersistentVolumeClaimsTable))"
proof -
  let ?p = "\<lparr>pvc_meta_name = ''c2'', pvc_status_phase = ''Bound'',
        pvc_spec_volumeName = ''pv-2'', pvc_spec_volumeMode = Some ''Filesystem'',
        pvc_spec_storageClassName = Some ''standard'',
        pvc_status_capacity = [''storage'' \<mapsto> \<lparr>amount_value = 1, amount_scale = 9, qformat = DecimalSI, cached_text = []\<rparr>],
        pvc_spec_requests = [''storage'' \<mapsto> \<lparr>amount_value = 1, amount_scale = 9, qformat = DecimalSI, cached_text = []\<rparr>]\<rparr>"
  let ?l = "\<lambda>(c::unit) (ns::string). Inr [?p] :: string + PersistentVolumeClaim list"
  let ?t = "NewPersistentVolumeClaimsTable () :: (unit, unit) PersistentVolumeClaimsTable"
  have g: "pvc_Generate ?l ?t () () = Some ([], Inr [pvc_row ?p])"
    by (simp add: pvc_Generate_def row_simps)
  have "dom (pvc_row ?p) \<subseteq> col_name ` set (pvc_Columns ?t)"
    using pvc_Generate_rows_in_schema [OF g] by simp
  with g show ?thesis by simp
qed

text \<open>C8: Every row that \<open>Generate\<close> of a volumes table built by
  \<open>NewPersistentVolumesTable\<close> returns has keys only among the columns the table
  declares.\<close>

theorem pv_Generate_rows_in_schema:
  assumes "pv_Generate list_pvs (NewPersistentVolumesTable c) ctx queryContext = Some (logged, Inr rows)"
    and "r \<in> set rows"
  shows "dom r \<subseteq> col_name ` set (pv_Columns (NewPersistentVolumesTable c))"
proof -
  have "dom r \<subseteq> col_name ` set pv_columns"
    using assms by (rule pv_Generate_rows_dom)
  then show ?thesis by (simp add: pv_Columns_def NewPersistentVolumesTable_def)
qed

theorem pv_Generate_rows_in_schema_witness:
  "pv_Generate (\<lambda>(c::unit). Inr [\<lparr>pv_meta_name = ''pv-3'', pv_status_phase = ''Bound'',
        pv_spec_storageClassName = ''local'',
        pv_spec_capacity = [''storage'' \<mapsto> \<lparr>amount_value = 100, amount_scale = 9, qformat = DecimalSI, cached_text = []\<rparr>],
        pv_spec_local = Some ''/mnt/ssd'', pv_spec_nodeAffinity = Some \<lparr>Required = None\<rparr>\<rparr>]
        :: string + PersistentVolume list)
     (NewPersistentVolumesTable () :: (unit, unit) PersistentVolumesTable) () ()
   = Some ([], Inr [pv_row (NewPersistentVolumesTable () :: (unit, unit) PersistentVolumesTable)
        \<lparr>pv_meta_name = ''pv-3'', pv_status_phase = ''Bound'', pv_spec_storageClassName = ''local'',
         pv_spec_capacity = [''storage'' \<mapsto> \<lparr>amount_value = 100, amount_scale = 9, qformat = DecimalSI, cached_text = []\<rparr>],
         pv_spec_local = Some ''/mnt/ssd'', pv_spec_nodeAffinity = Some \<lparr>Required = None\<rparr>\<rparr>])
   \<and> dom (pv_row (NewPersistentVolumesTable () :: (unit, unit) PersistentVolumesTable)
        \<lparr>pv_meta_name = ''pv-3'', pv_status_phase = ''Bound'', pv_spec_storageClassName = ''local'',
         pv_spec_capacity = [''storage'' \<mapsto> \<lparr>amount_value = 100, amount_scale = 9, qformat = DecimalSI, cached_text = []\<rparr>],
         pv_spec_local = Some ''/mnt/ssd'', pv_spec_nodeAffinity = Some \<lparr>Required = None\<rparr>\<rparr>)
     \<subseteq> col_name ` set (pv_Columns (NewPersistentVolumesTable () :: (unit, unit) PersistentVolumesTable))"
proof -
  let ?p = "\<lparr>pv_meta_name = ''pv-3'', pv_status_phase = ''Bound'', pv_spec_storageClassName = ''local'',
         pv_spec_capacity = [''storage'' \<mapsto> \<lparr>amount_value = 100, amount_scale = 9, qformat = DecimalSI, cached_text = []\<rparr>],
         pv_spec_local = Some ''/mnt/ssd'', pv_spec_nodeAffinity = Some \<lparr>Required = None\<rparr>\<rparr>"
  let ?l = "\<lambda>(c::unit). Inr [?p] :: string + PersistentVolume list"
  let ?t = "NewPersistentVolumesTable () :: (unit, unit) PersistentVolumesTable"
  have g: "pv_Generate ?l ?t () () = Some ([], Inr [pv_row ?t ?p])"
    by (simp add: pv_Generate_def row_simps)
  have "dom (pv_row ?t ?p) \<subseteq> col_name ` set (pv_Columns ?t)"
    using pv_Generate_rows_in_schema [OF g] by simp
  with g show ?thesis by simp
qed

subsection \<open>Storage cells\<close>

text \<open>C9: The \<open>capacity\<close> and \<open>requested\<close> cells of a claim's row are exact: for
  storage quantities without cached text and in range (int64 amount, scale at
  least nano, magnitude below \<open>10^21\<close>), reading the cell back gives the
  quantity's value, and a claim without a \<open>storage\<close> entry has no cell.  (A
  quantity with cached text is written as that text, by C5 and \<open>String\<close>.)\<close>

theorem pvc_row_storage_exact:
  assumes "pred_option (\<lambda>q. quantity_in_range q \<and> cached_text q = []) (pvc_status_capacity pvc ''storage'')"
    and "pred_option (\<lambda>q. quantity_in_range q \<and> cached_text q = []) (pvc_spec_requests pvc ''storage'')"
  shows "Option.bind (pvc_row pvc ''capacity'') read_quantity
           = map_option quantity_value (pvc_status_capacity pvc ''storage'')
         \<and> Option.bind (pvc_row pvc ''requested'') read_quantity
           = map_option quantity_value (pvc_spec_requests pvc ''storage'')"
  using assms by (simp add: pvc_row_def Let_def row_simps read_rendered_entry)

theorem pvc_row_storage_exact_witness:
  "Option.bind (pvc_row \<lparr>pvc_meta_name = ''db'', pvc_status_phase = ''Bound'',
        pvc_spec_volumeName = ''pv-9'', pvc_spec_volumeMode = None, pvc_spec_storageClassName = None,
        pvc_status_capacity = [''storage'' \<mapsto> \<lparr>amount_value = 1500, amount_scale = -3, qformat = DecimalSI, cached_text = []\<rparr>],
        pvc_spec_requests = Map.empty\<rparr> ''capacity'') read_quantity = Some (3 / 2)
   \<and> Option.bind (pvc_row \<lparr>pvc_meta_name = ''db'', pvc_status_phase = ''Bound'',
        pvc_spec_volumeName = ''pv-9'', pvc_spec_volumeMode = None, pvc_spec_storageClassName = None,
        pvc_status_capacity = [''storage'' \<mapsto> \<lparr>amount_value = 1500, amount_scale = -3, qformat = DecimalSI, cached_text = []\<rparr>],
        pvc_spec_requests = Map.empty\<rparr> ''requested'') read_quantity = None"
proof -
  let ?q = "\<lparr>amount_value = 1500, amount_scale = -3, qformat = DecimalSI, cached_text = []\<rparr>"
  have r: "quantity_in_range ?q"
    by (simp add: quantity_in_range_def in_int64_def int64_min_def int64_max_def
        quantity_value_def scaled_value_def)
  have v: "quantity_value ?q = 3 / 2" by (simp add: quantity_value_def scaled_value_def)
  show ?thesis
    using pvc_row_storage_exact [of "\<lparr>pvc_meta_name = ''db'', pvc_status_phase = ''Bound'',
        pvc_spec_volumeName = ''pv-9'', pvc_spec_volumeMode = None, pvc_spec_storageClassName = None,
        pvc_status_capacity = [''storage'' \<mapsto> ?q], pvc_spec_requests = Map.empty\<rparr>"] r v
    by simp
qed

text \<open>C10: The \<open>capacity\<close> cell of a volume's row is exact in the same sense: for a
  storage quantity without cached text and in range it reads back to the
  quantity's value.\<close>

theorem pv_row_capacity_exact:
  assumes "pred_option (\<lambda>q. quantity_in_range q \<and> cached_text q = []) (pv_spec_capacity pv ''storage'')"
  shows "Option.bind (pv_row t pv ''capacity'') read_quantity
           = map_option quantity_value (pv_spec_capacity pv ''storage'')"
  using assms by (simp add: pv_row_def Let_def row_simps read_rendered_entry)

theorem pv_row_capacity_exact_witness:
  "Option.bind (pv_row (NewPersistentVolumesTable () :: (unit, unit) PersistentVolumesTable)
      \<lparr>pv_meta_name = ''pv-big'', pv_status_phase = ''Available'', pv_spec_storageClassName = '''',
       pv_spec_capacity = [''storage'' \<mapsto> \<lparr>amount_value = 3 * 2 ^ 40, amount_scale = 0, qformat = BinarySI, cached_text = []\<rparr>],
       pv_spec_local = None, pv_spec_nodeAffinity = None\<rparr> ''capacity'') read_quantity
   = Some (3 * 2 ^ 40)"
proof -
  let ?q = "\<lparr>amount_value = 3 * 2 ^ 40, amount_scale = 0, qformat = BinarySI, cached_text = []\<rparr>"
  have r: "quantity_in_range ?q"
    by (simp add: quantity_in_range_def in_int64_def int64_min_def int64_max_def
        quantity_value_def scaled_value_def)
  have v: "quantity_value ?q = 3 * 2 ^ 40" by (simp add: quantity_value_def scaled_value_def)
  show ?thesis
    using pv_row_capacity_exact [of "\<lparr>pv_meta_name = ''pv-big'', pv_status_phase = ''Available'',
        pv_spec_storageClassName = '''', pv_spec_capacity = [''storage'' \<mapsto> ?q],
        pv_spec_local = None, pv_spec_nodeAffinity = None\<rparr>"
        "NewPersistentVolumesTable () :: (unit, unit) PersistentVolumesTable"] r v
    by simp
qed

subsection \<open>The node affinity cell\<close>

text \<open>C11: The \<open>nodeaffinity\<close> cell of a volume's row, when present, never holds a
  raw control character or one of \<open><\<close>, \<open>>\<close>, \<open>&\<close>, whatever bytes the affinity's
  keys, operators and values contain: \<open>json.Marshal\<close> escapes them.\<close>

theorem pv_row_nodeaffinity_safe:
  "pred_option (list_all json_safe_char) (pv_row t pv ''nodeaffinity'')"
proof -
  have "list_all json_safe_char (getNodeAffinity t a)" for a
    by (simp add: list_all_iff row_simps json_Marshal_def json_text_safe)
  then show ?thesis
    by (cases "pv_spec_nodeAffinity pv") (simp_all add: pv_row_def Let_def row_simps)
qed

text \<open>C12: The \<open>nodeaffinity\<close> text is the compact text of a JSON value in which no
  member tagged \<open>omitempty\<close> (\<open>required\<close>, \<open>matchExpressions\<close>, \<open>matchFields\<close>,
  \<open>values\<close>) is written empty or null.\<close>

theorem getNodeAffinity_omitempty:
  "\<exists>j. getNodeAffinity t a = json_text j \<and> no_empty_omitempty j"
  using affinity_json_omitempty [of a] by (auto simp: row_simps json_Marshal_def)

theorem getNodeAffinity_omitempty_witness:
  "\<exists>j. getNodeAffinity (NewPersistentVolumesTable () :: (unit, unit) PersistentVolumesTable)
         \<lparr>Required = Some \<lparr>NodeSelectorTerms = Some [\<lparr>MatchExpressions =
            [\<lparr>Key = ''kubernetes.io/hostname'', Operator = ''In'', Values = [''node-1'']\<rparr>],
            MatchFields = []\<rparr>]\<rparr>\<rparr> = json_text j
       \<and> no_empty_omitempty j"
  using getNodeAffinity_omitempty [of "NewPersistentVolumesTable () :: (unit, unit) PersistentVolumesTable"
      "\<lparr>Required = Some \<lparr>NodeSelectorTerms = Some [\<lparr>MatchExpressions =
            [\<lparr>Key = ''kubernetes.io/hostname'', Operator = ''In'', Values = [''node-1'']\<rparr>],
            MatchFields = []\<rparr>]\<rparr>\<rparr>"]
  by simp

text \<open>C13: The \<open>nodeaffinity\<close> cell loses nothing: when the affinity's keys,
  operators and values are valid UTF-8, reading the cell back as JSON and decoding
  it as \<open>json.Unmarshal\<close> would gives exactly the volume's affinity, and a volume
  without affinity has no cell to read.\<close>

theorem pv_row_nodeaffinity_round_trip:
  assumes "pred_option (\<lambda>a. list_all valid_utf8 (affinity_strings a)) (pv_spec_nodeAffinity pv)"
  shows "Option.bind (pv_row t pv ''nodeaffinity'') read_affinity = pv_spec_nodeAffinity pv"
  using assms
  by (cases "pv_spec_nodeAffinity pv")
     (simp_all add: pv_row_def Let_def row_simps read_affinity_json_Marshal)

theorem pv_row_nodeaffinity_round_trip_witness:
  "pred_option (\<lambda>a. list_all valid_utf8 (affinity_strings a))
     (Some \<lparr>Required = Some \<lparr>NodeSelectorTerms = Some [\<lparr>MatchExpressions =
        [\<lparr>Key = ''disk'', Operator = ''In'', Values = [''ssd<nvme>'']\<rparr>], MatchFields = []\<rparr>]\<rparr>\<rparr>)
   \<and> Option.bind (pv_row (NewPersistentVolumesTable () :: (unit, unit) PersistentVolumesTable)
       \<lparr>pv_meta_name = ''pv-l'', pv_status_phase = ''Bound'', pv_spec_storageClassName = ''local'',
        pv_spec_capacity = Map.empty, pv_spec_local = Some ''/mnt/ssd'',
        pv_spec_nodeAffinity = Some \<lparr>Required = Some \<lparr>NodeSelectorTerms = Some [\<lparr>MatchExpressions =
          [\<lparr>Key = ''disk'', Operator = ''In'', Values = [''ssd<nvme>'']\<rparr>], MatchFields = []\<rparr>]\<rparr>\<rparr>\<rparr>
       ''nodeaffinity'') read_affinity
     = Some \<lparr>Required = Some \<lparr>NodeSelectorTerms = Some [\<lparr>MatchExpressions =
          [\<lparr>Key = ''disk'', Operator = ''In'', Values = [''ssd<nvme>'']\<rparr>], MatchFields = []\<rparr>]\<rparr>\<rparr>"
proof -
  let ?a = "\<lparr>Required = Some \<lparr>NodeSelectorTerms = Some [\<lparr>MatchExpressions =
          [\<lparr>Key = ''disk'', Operator = ''In'', Values = [''ssd<nvme>'']\<rparr>], MatchFields = []\<rparr>]\<rparr>\<rparr>"
  have v: "pred_option (\<lambda>a. list_all valid_utf8 (affinity_strings a)) (Some ?a)"
    by (simp add: affinity_strings_def requirement_strings_def byte_def)
  show ?thesis
    using v pv_row_nodeaffinity_round_trip [of "\<lparr>pv_meta_name = ''pv-l'', pv_status_phase = ''Bound'',
        pv_spec_storageClassName = ''local'', pv_spec_capacity = Map.empty,
        pv_spec_local = Some ''/mnt/ssd'', pv_spec_nodeAffinity = Some ?a\<rparr>"
        "NewPersistentVolumesTable () :: (unit, unit) PersistentVolumesTable"]
    by simp
qed

text \<open>C14: The \<open>nodeaffinity\<close> cell is always valid UTF-8, whatever bytes the
  affinity's strings hold: invalid bytes become \<open>\ufffd\<close> escapes, so the text
  handed to osquery is well-formed.\<close>

theorem pv_row_nodeaffinity_valid_utf8:
  "pred_option valid_utf8 (pv_row t pv ''nodeaffinity'')"
  by (cases "pv_spec_nodeAffinity pv")
     (simp_all add: pv_row_def Let_def row_simps json_Marshal_def valid_utf8_json_text)

subsection \<open>The row loop against its reference\<close>

text \<open>C15: The loop \<open>rows[i] = currRow\<close> over a slice allocated with \<open>k\<close> slots is
  the reference \<open>map\<close> padded with the untouched slots when the slice is long
  enough, and panics exactly when it is shorter than the list: \<open>Generate\<close>'s
  \<open>make(..., len(items))\<close> is the one size that gives exactly the rows.\<close>

theorem fill_rows_slice_size:
  "fill_rows f 0 items (replicate k Map.empty) =
     (if length items \<le> k then Some (map f items @ replicate (k - length items) Map.empty) else None)"
proof -
  have gen: "i \<le> length rows \<Longrightarrow> fill_rows f i xs rows =
      (if i + length xs \<le> length rows then Some (take i rows @ map f xs @ drop (i + length xs) rows) else None)"
    for i xs and rows :: "row list"
  proof (induction xs arbitrary: i rows)
    case Nil
    then show ?case by simp
  next
    case (Cons x xs)
    show ?case
    proof (cases "i < length rows")
      case True
      then have "slice_set rows i (f x) = Some (rows[i := f x])" by (simp add: slice_set_def)
      with True Cons.IH [of "Suc i" "rows[i := f x]"] show ?thesis
        by (simp add: take_Suc_list_update)
    next
      case False
      with Cons.prems show ?thesis by (simp add: slice_set_def)
    qed
  qed
  show ?thesis by (simp add: gen)
qed

end
