(* ===== verification/RowLoop.thy ===== *)
theory RowLoop
  imports Tables
begin

text \<open>
  The loop of \<open>Generate\<close> as the program runs it, one iteration at a time:
  \<open>for i, item := range items { currRow := ...; rows[i] = currRow }\<close> over the
  slice \<open>rows := make([]map[string]string, len(items))\<close>.  A state is the loop
  index with the slice, a panic (\<open>rows[i]\<close> out of range), or the loop's end with
  the slice.  The lemmas show, by rule induction over the steps, what holds of
  every state reached from \<open>Generate\<close>'s start (the slice keeps its length and
  holds the rows of the items already visited), and that from every such state
  the loop can still reach its end with the rows \<open>map\<close> gives.
\<close>

datatype loop_state = Running nat "row list" | Panicked | Done "row list"

inductive loop_step :: "('a \<Rightarrow> row) \<Rightarrow> 'a list \<Rightarrow> loop_state \<Rightarrow> loop_state \<Rightarrow> bool"
  for f :: "'a \<Rightarrow> row" and items :: "'a list" where
  step_write: "i < length items \<Longrightarrow> i < length rows \<Longrightarrow>
    loop_step f items (Running i rows) (Running (Suc i) (rows[i := f (items ! i)]))"
| step_panic: "i < length items \<Longrightarrow> \<not> i < length rows \<Longrightarrow>
    loop_step f items (Running i rows) Panicked"
| step_stop: "\<not> i < length items \<Longrightarrow> loop_step f items (Running i rows) (Done rows)"

code_pred loop_step .

definition loop_start :: "'a list \<Rightarrow> loop_state" where
  "loop_start items = Running 0 (replicate (length items) Map.empty)"

fun final :: "loop_state \<Rightarrow> bool" where
  "final (Running i rows) = False"
| "final _ = True"

text \<open>The outcome \<open>fill_rows\<close> computes, as a final state.\<close>

definition outcome :: "row list option \<Rightarrow> loop_state" where
  "outcome r = (case r of None \<Rightarrow> Panicked | Some rows \<Rightarrow> Done rows)"

text \<open>What holds of the states reached from \<open>Generate\<close>'s start: the slice keeps
  its length, the slots before the index hold the rows of the items before it, the
  others are still empty; the loop ends with the rows of all items.\<close>

fun loop_inv :: "('a \<Rightarrow> row) \<Rightarrow> 'a list \<Rightarrow> loop_state \<Rightarrow> bool" where
  "loop_inv f items (Running i rows) \<longleftrightarrow>
     i \<le> length items \<and> rows = map f (take i items) @ replicate (length items - i) Map.empty"
| "loop_inv f items Panicked \<longleftrightarrow> False"
| "loop_inv f items (Done rows) \<longleftrightarrow> rows = map f items"

inductive_cases loop_step_RunningE: "loop_step f items (Running i rows) s"
inductive_cases loop_step_PanickedE [elim!]: "loop_step f items Panicked s"
inductive_cases loop_step_DoneE [elim!]: "loop_step f items (Done rows) s"

lemma loop_step_deterministic:
  "loop_step f items s s' \<Longrightarrow> loop_step f items s s'' \<Longrightarrow> s'' = s'"
  by (induction rule: loop_step.induct) (auto elim: loop_step_RunningE)

lemma final_no_step: "final s \<Longrightarrow> \<not> loop_step f items s s'"
  by (cases s) auto

lemma final_outcome [simp]: "final (outcome r)"
  by (simp add: outcome_def split: option.split)

lemma loop_star_final:
  "(loop_step f items)\<^sup>*\<^sup>* s t \<Longrightarrow> final s \<Longrightarrow> t = s"
  by (erule star_from_final) (simp add: final_no_step)

lemma loop_star_confluent:
  assumes "(loop_step f items)\<^sup>*\<^sup>* s u" "(loop_step f items)\<^sup>*\<^sup>* s t" "final t"
  shows "(loop_step f items)\<^sup>*\<^sup>* u t"
  by (rule deterministic_star_final [where r = "loop_step f items", OF _ assms(1,2)])
    (use loop_step_deterministic final_no_step assms(3) in blast)+

lemma loop_runs_fill_rows:
  "(loop_step f items)\<^sup>*\<^sup>* (Running i rows) (outcome (fill_rows f i (drop i items) rows))"
proof (induction "length items - i" arbitrary: i rows)
  case 0
  then have "loop_step f items (Running i rows) (Done rows)" by (simp add: step_stop)
  with 0 show ?case by (simp add: outcome_def)
next
  case (Suc n)
  then have i: "i < length items" by simp
  then have drop: "drop i items = items ! i # drop (Suc i) items" by (simp add: Cons_nth_drop_Suc)
  show ?case
  proof (cases "i < length rows")
    case True
    with i have "loop_step f items (Running i rows) (Running (Suc i) (rows[i := f (items ! i)]))"
      by (rule step_write)
    moreover have "length items - Suc i = n" using Suc.hyps(2) by simp
    ultimately show ?thesis using Suc.hyps(1) True
      by (simp add: drop slice_set_def converse_rtranclp_into_rtranclp)
  next
    case False
    with i have "loop_step f items (Running i rows) Panicked" by (rule step_panic)
    with False show ?thesis by (simp add: drop slice_set_def outcome_def)
  qed
qed

lemma loop_final_iff_fill_rows:
  "(loop_step f items)\<^sup>*\<^sup>* (Running i rows) s \<and> final s \<longleftrightarrow>
     s = outcome (fill_rows f i (drop i items) rows)"
  using loop_runs_fill_rows loop_star_confluent loop_star_final final_outcome by metis

lemma loop_inv_start: "loop_inv f items (loop_start items)"
  by (simp add: loop_start_def)

lemma loop_step_inv: "loop_step f items s s' \<Longrightarrow> loop_inv f items s \<Longrightarrow> loop_inv f items s'"
proof (induction rule: loop_step.induct)
  case (step_write i rows)
  then have "length items - i = Suc (length items - Suc i)" by simp
  with step_write show ?case
    by (simp add: take_Suc_conv_app_nth list_update_append)
qed auto

lemma reachable_loop_inv:
  "(loop_step f items)\<^sup>*\<^sup>* (loop_start items) s \<Longrightarrow> loop_inv f items s"
  by (induction rule: rtranclp_induct) (auto intro: loop_inv_start loop_step_inv)

subsection \<open>Properties of the loop\<close>

text \<open>C16: From every state that \<open>Generate\<close>'s loop reaches, the loop can still
  run to its end with one row per item, in the items' order.\<close>

theorem loop_reaches_done:
  "(loop_step f items)\<^sup>*\<^sup>* (loop_start items) s \<Longrightarrow>
     (loop_step f items)\<^sup>*\<^sup>* s (Done (map f items))"
  using loop_star_confluent loop_final_iff_fill_rows [of f items 0]
  by (metis drop_0 generate_rows_Some generate_rows_def loop_start_def outcome_def option.simps(5))

theorem loop_reaches_done_witness:
  "(loop_step (\<lambda>n::nat. [''n'' \<mapsto> ''x'']) [1, 2])\<^sup>*\<^sup>* (loop_start [1::nat, 2])
     (Running 1 [[''n'' \<mapsto> ''x''], Map.empty])
   \<and> (loop_step (\<lambda>n::nat. [''n'' \<mapsto> ''x'']) [1, 2])\<^sup>*\<^sup>* (Running 1 [[''n'' \<mapsto> ''x''], Map.empty])
     (Done [[''n'' \<mapsto> ''x''], [''n'' \<mapsto> ''x'']])"
proof -
  have "loop_step (\<lambda>n::nat. [''n'' \<mapsto> ''x'']) [1, 2] (loop_start [1::nat, 2])
          (Running 1 [[''n'' \<mapsto> ''x''], Map.empty])"
    using step_write [of 0 "[1::nat, 2]" "[Map.empty, Map.empty]" "\<lambda>n. [''n'' \<mapsto> ''x'']"]
    by (simp add: loop_start_def numeral_2_eq_2)
  then have r: "(loop_step (\<lambda>n::nat. [''n'' \<mapsto> ''x'']) [1, 2])\<^sup>*\<^sup>* (loop_start [1::nat, 2])
      (Running 1 [[''n'' \<mapsto> ''x''], Map.empty])" by (rule r_into_rtranclp)
  then show ?thesis using loop_reaches_done [OF r] by simp
qed

text \<open>C17: In every state the loop reaches, the slice keeps the length \<open>make\<close> gave
  it, the index is within the items, the slots before the index hold the rows of the
  items before it, and the slots after it are still nil.\<close>

theorem reachable_Running_rows:
  "(loop_step f items)\<^sup>*\<^sup>* (loop_start items) (Running i rows) \<Longrightarrow>
     length rows = length items \<and> i \<le> length items \<and> take i rows = map f (take i items) \<and>
     set (drop i rows) \<subseteq> {Map.empty}"
  by (drule reachable_loop_inv) auto

theorem reachable_Running_rows_witness:
  "(loop_step (\<lambda>n::nat. [''n'' \<mapsto> ''1'']) [1, 2])\<^sup>*\<^sup>* (loop_start [1::nat, 2])
     (Running 1 [[''n'' \<mapsto> ''1''], Map.empty])
   \<and> length [[''n'' \<mapsto> ''1''], Map.empty] = length [1::nat, 2] \<and> 1 \<le> length [1::nat, 2] \<and>
     take 1 [[''n'' \<mapsto> ''1''], Map.empty] = map (\<lambda>n. [''n'' \<mapsto> ''1'']) (take 1 [1::nat, 2]) \<and>
     set (drop 1 [[''n'' \<mapsto> ''1''], Map.empty]) \<subseteq> {Map.empty}"
proof -
  have "loop_step (\<lambda>n::nat. [''n'' \<mapsto> ''1'']) [1, 2] (loop_start [1::nat, 2])
          (Running 1 [[''n'' \<mapsto> ''1''], Map.empty])"
    using step_write [of 0 "[1::nat, 2]" "[Map.empty, Map.empty]" "\<lambda>n. [''n'' \<mapsto> ''1'']"]
    by (simp add: loop_start_def numeral_2_eq_2)
  then have r: "(loop_step (\<lambda>n::nat. [''n'' \<mapsto> ''1'']) [1, 2])\<^sup>*\<^sup>* (loop_start [1::nat, 2])
      (Running 1 [[''n'' \<mapsto> ''1''], Map.empty])" by (rule r_into_rtranclp)
  then show ?thesis using reachable_Running_rows [OF r] by simp
qed

end
