(* ===== verification/Spec2Isabelle.thy ===== *)
theory Spec2Isabelle
  imports RowLoop
begin

text \<open>
  \<^bold>\<open>A verification model of kube-query's persistent volume tables.\<close>

  \<^emph>\<open>The program.\<close>  \<open>src/tables/persistentvolumeclaims.go\<close> and
  \<open>src/tables/persistentvolumes.go\<close> are two osquery table plugins.  Each is a Go
  struct (columns, name, Kubernetes client, an unused metrics client) with
  \<open>Name\<close>, \<open>Columns\<close> and \<open>Generate\<close>.  \<open>Generate\<close> calls the Kubernetes
  lister once (claims across all namespaces, volumes cluster-wide); on failure it
  logs a line and returns the error with no rows; otherwise it allocates one row
  slot per object and fills slot \<open>i\<close> with the row of object \<open>i\<close>.  A row is a
  \<open>map[string]string\<close> built from the object's fields: required fields always,
  pointer fields only when set, the \<open>storage\<close> entry of a resource list through
  Kubernetes' \<open>Quantity.String\<close>, and a volume's node affinity through
  \<open>json.Marshal\<close> (\<open>getNodeAffinity\<close>).

  \<^emph>\<open>The theories.\<close>
  \<^item> \<open>Prelude\<close>: the row type \<open>string \<rightharpoonup> string\<close>; Go's int64 range, wrap-around
    (\<open>wrap64\<close>) and truncating division (\<open>go_quot\<close>, \<open>go_rem\<close>); the collections
    \<open>go_int_simps\<close> and \<open>row_simps\<close>.
  \<^item> \<open>Strconv\<close>: \<open>strconv.AppendInt\<close> base 10 (\<open>format_int\<close>) and a reference reader
    \<open>parse_int\<close>, with the round trip.
  \<^item> \<open>Quantity\<close>: \<open>resource.Quantity\<close> in its int64 form \<open>value * 10^scale\<close> with a
    \<open>Format\<close> and the cached text \<open>s\<close> (\<open>cached_text\<close>); \<open>quantity_String\<close> is
    \<open>String\<close> (the cached text if set, else \<open>canonical_string\<close>, which follows
    \<open>CanonicalizeBytes\<close>):
    \<open>remove_int64_factors\<close> (\<open>removeInt64Factors\<close>), \<open>int64_multiply_scale\<close>
    (\<open>int64MultiplyScale10/100\<close>, overflow detected by dividing the wrapped product
    back), \<open>as_canonical_bytes\<close>, \<open>as_canonical_base1024_bytes\<close>, the suffix
    tables and \<open>construct_suffix\<close>; the arbitrary-precision fallback
    (\<open>infDecAmount\<close>) is \<open>big_canonical_bytes\<close> over unbounded integers.
    \<open>quantity_value\<close> is the rational a quantity denotes and \<open>read_quantity\<close> a
    reference reader of rendered quantities (not code of the program).
  \<^item> \<open>GoJSON\<close>: a JSON value tree and its compact text as \<open>encoding/json\<close> writes
    it, with \<open>encodeState.string\<close> (HTML escaping on, UTF-8 validation, U+2028/9),
    and the proof that the text holds only \<open>json_safe_char\<close> characters.
  \<^item> \<open>NodeAffinity\<close>: \<open>VolumeNodeAffinity\<close>, \<open>NodeSelector\<close>,
    \<open>NodeSelectorTerm\<close>, \<open>NodeSelectorRequirement\<close> and their struct tags
    (\<open>omitempty\<close>), giving \<open>json_Marshal\<close>; \<open>no_empty_omitempty\<close> states the
    tags' contract on a value tree.
  \<^item> \<open>JSONDecode\<close>: a reference reader of the compact JSON text
    (\<open>decode_string_body\<close>, the mutually recursive \<open>parse_value\<close>,
    \<open>parse_elements\<close>, \<open>parse_members\<close>, \<open>read_json\<close>) and a decoder back to
    \<open>VolumeNodeAffinity\<close> in the manner of \<open>json.Unmarshal\<close>
    (\<open>affinity_of_json\<close>, \<open>read_affinity\<close>); \<open>valid_utf8\<close>.  None of it is
    code of the program: it states what the \<open>nodeaffinity\<close> cell determines.
  \<^item> \<open>Tables\<close>: the code of \<open>src/tables\<close>: the table records and constructors,
    \<open>pvc_Name\<close>/\<open>pv_Name\<close>, \<open>pvc_Columns\<close>/\<open>pv_Columns\<close>, the row builders
    \<open>pvc_row\<close>/\<open>pv_row\<close> with the shared steps \<open>set_opt\<close> (a pointer field) and
    \<open>set_storage\<close> (a \<open>storage\<close> quantity), the loop \<open>fill_rows\<close> with Go's
    panicking slice assignment \<open>slice_set\<close>, \<open>generate_rows\<close>, \<open>getNodeAffinity\<close>,
    and \<open>pvc_Generate\<close>/\<open>pv_Generate\<close>.
  \<^item> \<open>RowLoop\<close>: the same \<open>for i, item := range items { ...; rows[i] = currRow }\<close>
    loop of both \<open>Generate\<close> methods as a transition system: \<open>loop_state\<close> is the
    index with the slice (\<open>Running\<close>), a runtime panic (\<open>Panicked\<close>) or the
    loop's exit (\<open>Done\<close>); \<open>loop_step\<close> is one iteration (write slot \<open>i\<close>,
    panic out of range, or leave the loop); \<open>loop_start\<close> is the slice
    \<open>make([]map[string]string, len(items))\<close> at index 0.

  \<^emph>\<open>Effects.\<close>  The lister is an interface: a function of the table's client
  (type \<open>'c\<close>) returning \<open>'e + objects\<close>; the error type is left abstract, which
  shows it is passed through unchanged.  \<open>Generate\<close> returns
  \<open>(logged lines, error + rows) option\<close>, \<open>None\<close> being a Go runtime panic.  The
  context and query-context arguments are type variables the code never reads.

  \<^emph>\<open>What is proved.\<close>
  \<^item> \<open>Tables\<close>, the code: \<open>Generate\<close> never panics and returns one row per
    listed object in order (the loop \<open>fill_rows\<close> equals \<open>map\<close>); on a lister
    error it logs one line and returns the error with no rows; every row stays
    inside the declared columns; each column holds exactly its source field and an
    absent field leaves its key out.
  \<^item> Storage cells (\<open>Tables\<close> over \<open>Quantity\<close>): \<open>String\<close> returns a
    quantity's cached text \<open>s\<close> verbatim when it is set (\<open>quantity_String\<close>), and
    only otherwise renders the canonical form (\<open>canonical_string\<close>).  For
    quantities without cached text and in range, the
    \<open>capacity\<close> and \<open>requested\<close> cells read back, by the reference reader
    \<open>read_quantity\<close>, to exactly the quantity's value.  Behind it: the int64 fast
    path of \<open>AsCanonicalBytes\<close> agrees with the arbitrary-precision path
    (\<open>as_canonical_bytes_eq_big\<close>); factor stripping and exponent alignment keep
    the value (\<open>remove_int64_factors_value\<close>, \<open>align_exponent3_value\<close>); the
    overflow test of \<open>int64MultiplyScale\<close> is exact; the suffix lookups succeed
    on the exponents that occur; \<open>strconv\<close> rendering reads back.  Cached text
    is whatever \<open>ParseQuantity\<close> kept of the object's input (for instance
    \<open>1E3\<close>), which the reference reader need not accept.
  \<^item> The node affinity cell (\<open>Tables\<close> over \<open>NodeAffinity\<close>, \<open>GoJSON\<close>): it
    never holds a raw control character or \<open><\<close>, \<open>>\<close>, \<open>&\<close>; no member tagged
    \<open>omitempty\<close> is ever written empty (but \<open>nodeSelectorTerms\<close> has no such
    tag, so a nil term list is written \<open>null\<close>, against the spec's contract that
    zero sub-rules are omitted).  The cell is always valid UTF-8, and
    when the affinity's strings are valid UTF-8 it reads back to exactly the
    affinity (\<open>JSONDecode\<close>: the encoder and the reader are inverse on strings,
    values and the affinity).
  \<^item> The row loop (\<open>Tables\<close>): over a slice of any pre-allocated size the
    \<open>rows[i]\<close> loop is the reference \<open>map\<close> padded with untouched slots, and it
    panics exactly when the slice is shorter than the list.
  \<^item> The loop as a transition system (\<open>RowLoop\<close>): by rule induction over the
    steps, every state reached from \<open>loop_start\<close> keeps the slice's length and
    holds the rows of the items already visited, the later slots still nil
    (\<open>reachable_Running_rows\<close>); and from every such state the loop can still
    reach \<open>Done\<close> with the rows of all items in order (\<open>loop_reaches_done\<close>).
    The facts on runs of deterministic step relations it uses are in
    \<open>Prelude\<close>.

  \<^emph>\<open>Bounds.\<close>  The storage read-back is proved for quantities with an int64
  amount, scale at least -9 and magnitude below \<open>10^21\<close>.  Scale -9 is nano, the
  finest suffix; \<open>10^21\<close> is where the suffix tables end (\<open>E\<close> is \<open>10^18\<close>, and
  a canonical exponent is a multiple of three, so it is at most 18 below
  \<open>10^21\<close>; \<open>Ei\<close> is \<open>2^60\<close> and \<open>1024^7 > 10^21\<close>).  Outside that range the
  library drops a suffix it cannot find, and the cell is not the value.  No fuel
  is used by the program's model: every loop of it (\<open>fill_rows\<close>, the factor-stripping loops,
  the exponent alignment, the string encoder) is a total function with a
  termination proof.  Only the reference JSON reader runs on fuel, one unit per
  nested call; \<open>read_json\<close> gives it the length of the text plus one, and
  \<open>json_fuel_le_length\<close> proves that enough for every marshalled value.

  \<^emph>\<open>Not modelled.\<close>  The osquery plugin registration and process lifecycle, the
  Kubernetes client's networking and authentication (only its result is modelled),
  \<open>log\<close> output beyond the logged lines, quantities held in the
  arbitrary-precision representation on input (the int64 form is what the API
  server's canonical strings parse to), \<open>ParseQuantity\<close> itself and so which
  inputs leave cached text in a quantity.  Concurrent calls of \<open>Generate\<close> are
  not modelled separately: a call shares no mutable state with another (its rows
  are local, the client is only read), so each call is the function modelled
  here.  Every statement of the two
  source files is translated; the lines the map leaves out are the package clause,
  the imports and comments.
\<close>

end
